theory Spec2Isabelle
  imports Complex_Main "HOL-Library.Log_Nat"
begin

section \<open>JavaScript numbers and strings\<close>

text \<open>
  A JavaScript number is an IEEE 754 double. The values that occur in \<^verbatim>\<open>main.js\<close> lie
  far inside the normal range, where a double is a rational \<open>m * 2 ^ e\<close> with a 53-bit
  significand \<open>m\<close>, and an arithmetic operation returns the exact result rounded to the
  nearest such rational, ties going to the even significand.
\<close>

definition pow2 :: "int \<Rightarrow> rat" where
  "pow2 k = (if 0 \<le> k then 2 ^ nat k else 1 / 2 ^ nat (- k))"

definition round_half_even :: "rat \<Rightarrow> int" where
  "round_half_even x =
     (let f = \<lfloor>x\<rfloor>; r = x - of_int f
      in if r < 1 / 2 then f else if 1 / 2 < r then f + 1 else if even f then f else f + 1)"

text \<open>The binary exponent \<open>\<lfloor>log\<^sub>2 x\<rfloor>\<close> of a positive rational.\<close>

definition binade :: "rat \<Rightarrow> int" where
  "binade x =
     (let (a, b) = quotient_of x; k = bitlen a - bitlen b
      in if pow2 k \<le> x then k else k - 1)"

definition to_double :: "rat \<Rightarrow> rat" where
  "to_double x =
     (if x = 0 then 0
      else let ulp = pow2 (binade \<bar>x\<bar> - 52)
           in sgn x * of_int (round_half_even (\<bar>x\<bar> / ulp)) * ulp)"

definition js_div :: "rat \<Rightarrow> rat \<Rightarrow> rat" where
  "js_div a b = to_double (a / b)"

definition js_mul :: "rat \<Rightarrow> rat \<Rightarrow> rat" where
  "js_mul a b = to_double (a * b)"

text \<open>
  \<^verbatim>\<open>currentQuestion++\<close> on a counter that holds a natural number: exact below \<open>2 ^ 53\<close>;
  at \<open>2 ^ 53\<close> the sum \<open>2 ^ 53 + 1\<close> is a tie and rounds back to \<open>2 ^ 53\<close>.
\<close>

definition js_incr :: "nat \<Rightarrow> nat" where
  "js_incr n = (if n < 2 ^ 53 then n + 1 else n)"

text \<open>A natural number inside a template literal: its decimal digits.\<close>

function show_nat :: "nat \<Rightarrow> string" where
  "show_nat n =
     (if n < 10 then [''0123456789'' ! n]
      else show_nat (n div 10) @ [''0123456789'' ! (n mod 10)])"
  by pat_completeness auto
termination
  by (relation "measure (\<lambda>n. n)") auto

declare show_nat.simps [simp del]


section \<open>The quiz preview\<close>

subsection \<open>The elements the script reads and writes\<close>

text \<open>
  An \<^verbatim>\<open>.option\<close> element: whether its class list holds \<^verbatim>\<open>selected\<close>, and its inline
  \<^verbatim>\<open>style.transform\<close>.
\<close>

record option_elem =
  selected :: bool
  transform :: string

text \<open>
  The \<^verbatim>\<open>.quiz-question\<close> element: the markup last assigned to its \<^verbatim>\<open>innerHTML\<close> by
  the script (\<open>None\<close> while it still has the page's own children), and the text of the
  first \<^verbatim>\<open>p\<close> inside it (\<open>None\<close> when it has no \<^verbatim>\<open>p\<close>), which is what
  \<^verbatim>\<open>document.querySelector('.quiz-question p')\<close> finds.
\<close>

record question_elem =
  assignedHTML :: "string option"
  questionText :: "string option"

text \<open>
  The inline \<^verbatim>\<open>style.width\<close> of \<^verbatim>\<open>.progress-fill\<close>: as the page left it, or a
  percentage written by the script. \<open>Percent x\<close> is the text of the number \<open>x\<close> followed
  by \<^verbatim>\<open>%\<close>.
\<close>

datatype css_width = Initial_width | Percent rat

text \<open>
  The document as \<^verbatim>\<open>initQuizPreview\<close> sees it. An element the document does not have is
  \<open>None\<close>, as \<^verbatim>\<open>querySelector\<close> returns \<^verbatim>\<open>null\<close> for it. For \<^verbatim>\<open>.quiz-card\<close> the
  value is its inline \<^verbatim>\<open>style.transform\<close>, for \<^verbatim>\<open>.progress-text\<close> its
  \<^verbatim>\<open>textContent\<close>; \<open>options\<close> lists the \<^verbatim>\<open>.option\<close> elements in document order.
\<close>

record page =
  quizCard :: "string option"
  options :: "option_elem list"
  progressFill :: "css_width option"
  progressText :: "string option"
  quizQuestion :: "question_elem option"

text \<open>
  The running component: the document, the closure variable \<^verbatim>\<open>currentQuestion\<close>, and
  the number of \<^verbatim>\<open>setTimeout\<close> callbacks that are scheduled and have not run yet. All
  scheduled callbacks are the same closure, so their number is all there is to know.
\<close>

record quiz = page +
  currentQuestion :: nat
  timers :: nat

definition totalQuestions :: nat where
  "totalQuestions = 10"

subsection \<open>initQuizPreview\<close>

definition initQuizPreview :: "page \<Rightarrow> quiz option" where
  "initQuizPreview p =
     (if quizCard p = None then None
      else Some \<lparr>quizCard = quizCard p, options = options p,
                 progressFill = progressFill p, progressText = progressText p,
                 quizQuestion = quizQuestion p,
                 currentQuestion = 1, timers = 0\<rparr>)"

definition mouseenter :: "quiz \<Rightarrow> quiz" where
  "mouseenter q = q\<lparr>quizCard := Some ''rotateY(0deg) rotateX(0deg) scale(1.05)''\<rparr>"

definition mouseleave :: "quiz \<Rightarrow> quiz" where
  "mouseleave q = q\<lparr>quizCard := Some ''rotateY(-5deg) rotateX(5deg) scale(1)''\<rparr>"

text \<open>
  The click listener of the option at index \<open>i\<close>: every option loses \<^verbatim>\<open>selected\<close>, the
  clicked one gets it, and the timeout callback is scheduled.
\<close>

definition option_click :: "nat \<Rightarrow> quiz \<Rightarrow> quiz" where
  "option_click i q =
     (let cleared = map (\<lambda>opt. opt\<lparr>selected := False\<rparr>) (options q)
      in q\<lparr>options := cleared[i := (cleared ! i)\<lparr>selected := True\<rparr>],
            timers := Suc (timers q)\<rparr>)"

definition progress_text :: "nat \<Rightarrow> string" where
  "progress_text n = ''Question '' @ show_nat n @ '' of '' @ show_nat totalQuestions"

definition updateProgress :: "quiz \<Rightarrow> quiz" where
  "updateProgress q =
     (let progress = js_mul (js_div (of_nat (currentQuestion q)) (of_nat totalQuestions)) 100;
          q1 = (if progressFill q \<noteq> None then q\<lparr>progressFill := Some (Percent progress)\<rparr>
                else q)
      in if progressText q1 \<noteq> None
         then q1\<lparr>progressText := Some (progress_text (currentQuestion q1))\<rparr>
         else q1)"

definition questions :: "string list" where
  "questions =
     [''What motivates you most in life?'',
      ''How do you handle stress?'',
      ''What'' @ [CHR 0x27] @ ''s your ideal weekend?'',
      ''How do you make decisions?'',
      ''What energizes you most?'']"

text \<open>
  \<^verbatim>\<open>questions[currentQuestion - 1]\<close>. The counter is at least 1 wherever the script reads
  the array; at 0 the index would be \<open>-1\<close>, the read \<^verbatim>\<open>undefined\<close>, and the text
  assigned empty.
\<close>

definition simulateNextQuestion :: "quiz \<Rightarrow> quiz" where
  "simulateNextQuestion q =
     (let q1 = q\<lparr>options :=
                  map (\<lambda>opt. opt\<lparr>selected := False, transform := ''translateX(0)''\<rparr>)
                    (options q)\<rparr>
      in case quizQuestion q1 of
           None \<Rightarrow> q1
         | Some e \<Rightarrow>
             if questionText e \<noteq> None \<and> currentQuestion q1 \<le> length questions
             then q1\<lparr>quizQuestion := Some (e\<lparr>questionText :=
                        Some (if currentQuestion q1 = 0 then []
                              else questions ! (currentQuestion q1 - 1))\<rparr>)\<rparr>
             else q1)"

text \<open>
  The completion markup. The message starts with the nine bytes the source file has in
  front of \<^verbatim>\<open> Quiz Complete!\<close>.
\<close>

definition party :: string where
  "party = [CHR 0xC3, CHR 0xB0, CHR 0xC5, CHR 0xB8, CHR 0xC5, CHR 0xBD, CHR 0xE2, CHR 0x80,
            CHR 0xB0]"

definition complete_message :: string where
  "complete_message = party @ '' Quiz Complete! Great job!''"

definition complete_html :: string where
  "complete_html =
     ''<p style='' @ [CHR 0x22] @ ''color: #10b981; font-weight: 600;'' @ [CHR 0x22] @ ''>''
       @ complete_message @ ''</p>''"

definition showQuizComplete :: "quiz \<Rightarrow> quiz" where
  "showQuizComplete q =
     (let q1 = (if quizQuestion q \<noteq> None
                then q\<lparr>quizQuestion :=
                       Some \<lparr>assignedHTML = Some complete_html,
                             questionText = Some complete_message\<rparr>\<rparr>
                else q);
          q2 = (if progressFill q1 \<noteq> None then q1\<lparr>progressFill := Some (Percent 100)\<rparr>
                else q1)
      in if progressText q2 \<noteq> None then q2\<lparr>progressText := Some ''Quiz Complete!''\<rparr>
         else q2)"

text \<open>The callback handed to \<^verbatim>\<open>setTimeout\<close>.\<close>

definition timeout :: "quiz \<Rightarrow> quiz" where
  "timeout q =
     (let q1 = q\<lparr>currentQuestion := js_incr (currentQuestion q)\<rparr>
      in if currentQuestion q1 \<le> totalQuestions
         then simulateNextQuestion (updateProgress q1)
         else showQuizComplete q1)"

subsection \<open>Events\<close>

text \<open>
  What can happen to the component: the pointer enters or leaves the card, the option at
  an index is clicked, or the delay of the oldest scheduled callback elapses. A click on
  an option the document does not have, and a delay elapsing when nothing is scheduled,
  cannot happen; they change nothing.
\<close>

datatype event = MouseEnter | MouseLeave | Click nat | Elapse

fun handle :: "quiz \<Rightarrow> event \<Rightarrow> quiz" where
  "handle q MouseEnter = mouseenter q"
| "handle q MouseLeave = mouseleave q"
| "handle q (Click i) = (if i < length (options q) then option_click i q else q)"
| "handle q Elapse = (if timers q = 0 then q else timeout (q\<lparr>timers := timers q - 1\<rparr>))"

definition run :: "quiz \<Rightarrow> event list \<Rightarrow> quiz" where
  "run q evs = foldl handle q evs"

text \<open>Selections one after the other, each followed by its delay.\<close>

definition selections :: "nat list \<Rightarrow> event list" where
  "selections picks = concat (map (\<lambda>i. [Click i, Elapse]) picks)"


text \<open>
  The states of the specification, read off the counter by the test the callback makes.
\<close>

datatype phase = AwaitingSelection nat | Completed

definition phase_of :: "quiz \<Rightarrow> phase" where
  "phase_of q =
     (if currentQuestion q \<le> totalQuestions then AwaitingSelection (currentQuestion q)
      else Completed)"

text \<open>A page with a card, three options, both progress elements and a question.\<close>

definition demo_page :: page where
  "demo_page =
     \<lparr>quizCard = Some [],
      options = replicate 3 \<lparr>selected = False, transform = []\<rparr>,
      progressFill = Some Initial_width,
      progressText = Some ''Question 1 of 10'',
      quizQuestion = Some \<lparr>assignedHTML = None,
                            questionText = Some ''What motivates you most in life?''\<rparr>\<rparr>"

definition demo :: quiz where
  "demo =
     \<lparr>quizCard = Some [],
      options = replicate 3 \<lparr>selected = False, transform = []\<rparr>,
      progressFill = Some Initial_width,
      progressText = Some ''Question 1 of 10'',
      quizQuestion = Some \<lparr>assignedHTML = None,
                            questionText = Some ''What motivates you most in life?''\<rparr>,
      currentQuestion = 1, timers = 0\<rparr>"

text \<open>How many options carry the \<^verbatim>\<open>selected\<close> mark.\<close>

definition num_selected :: "option_elem list \<Rightarrow> nat" where
  "num_selected opts = length (filter selected opts)"

text \<open>What the visitor sees of the quiz: progress width, progress text, question.\<close>

definition display :: "quiz \<Rightarrow> css_width option \<times> string option \<times> question_elem option" where
  "display q = (progressFill q, progressText q, quizQuestion q)"


section \<open>Scroll animations\<close>

text \<open>
  \<^verbatim>\<open>classList.add\<close>: a class list is an ordered set of tokens; a token it already holds
  is not added again.
\<close>

definition classList_add :: "string \<Rightarrow> string list \<Rightarrow> string list" where
  "classList_add c cl = (if c \<in> set cl then cl else cl @ [c])"

text \<open>
  An \<^verbatim>\<open>IntersectionObserverEntry\<close>: its target, as an index into the list of observed
  elements (\<^verbatim>\<open>animatedElements\<close>), and whether the target intersects the viewport. The
  state is the class list of each observed element. The observer reports observed
  elements only; an entry for any other index changes nothing.
\<close>

record entry =
  target :: nat
  isIntersecting :: bool

definition reveal :: "string list list \<Rightarrow> entry \<Rightarrow> string list list" where
  "reveal els e =
     (if isIntersecting e \<and> target e < length els
      then els[target e := classList_add ''animate-in'' (els ! target e)]
      else els)"

text \<open>The observer's callback, and a sequence of its invocations.\<close>

definition observer_callback :: "string list list \<Rightarrow> entry list \<Rightarrow> string list list" where
  "observer_callback els entries = foldl reveal els entries"

definition observe :: "string list list \<Rightarrow> entry list list \<Rightarrow> string list list" where
  "observe els batches = foldl observer_callback els batches"


section \<open>Smooth scrolling\<close>

text \<open>
  \<^verbatim>\<open>document.querySelector\<close> is the browser's: given a selector it returns the first
  matching element or \<^verbatim>\<open>null\<close>, or throws a \<^verbatim>\<open>SyntaxError\<close> when the text is not a
  valid selector. The click listener takes it as a parameter.
\<close>

datatype dom_exception = SyntaxError

record scroll_options =
  behavior :: string
  block :: string

text \<open>
  What one run of the click listener did: whether \<^verbatim>\<open>preventDefault\<close> was called, the
  element scrolled into view with the options passed, and the exception that ended the
  listener, if one did.
\<close>

record 'e click_outcome =
  defaultPrevented :: bool
  scrolledIntoView :: "('e \<times> scroll_options) option"
  thrown :: "dom_exception option"

definition anchor_click ::
  "(string \<Rightarrow> dom_exception + 'e option) \<Rightarrow> string \<Rightarrow> 'e click_outcome" where
  "anchor_click querySelector href =
     (case querySelector href of
        Inl ex \<Rightarrow> \<lparr>defaultPrevented = True, scrolledIntoView = None, thrown = Some ex\<rparr>
      | Inr None \<Rightarrow> \<lparr>defaultPrevented = True, scrolledIntoView = None, thrown = None\<rparr>
      | Inr (Some targetElement) \<Rightarrow>
          \<lparr>defaultPrevented = True,
           scrolledIntoView = Some (targetElement, \<lparr>behavior = ''smooth'', block = ''start''\<rparr>),
           thrown = None\<rparr>)"

text \<open>
  A stand-in for the browser on a page whose elements with an id are the given ones and
  carry no class, for selector texts of the form \<^verbatim>\<open>#id\<close> or \<^verbatim>\<open>#id.class.class\<close> with
  ASCII identifiers: \<^verbatim>\<open>#id\<close> finds the element with that id, a text that also asks for a
  class finds nothing, and a text whose parts are not identifiers (\<^verbatim>\<open>#\<close> alone, or
  \<^verbatim>\<open>#1\<close>) raises the syntax error. The listener is registered on links whose href
  starts with \<^verbatim>\<open>#\<close> and passes nothing else. Selector syntax beyond identifiers and
  dots (combinators, attribute and pseudo selectors, escapes, names outside ASCII) is not
  part of this stand-in, which answers such a text like an invalid one.
\<close>

definition ident_start :: "char \<Rightarrow> bool" where
  "ident_start c \<longleftrightarrow> c \<in> set ''abcdefghijklmnopqrstuvwxyzABCDEFGHIJKLMNOPQRSTUVWXYZ_''"

definition ident_char :: "char \<Rightarrow> bool" where
  "ident_char c \<longleftrightarrow> ident_start c \<or> c \<in> set ''0123456789-''"

fun css_ident :: "string \<Rightarrow> bool" where
  "css_ident [] = False"
| "css_ident (c # cs) =
     (if c = CHR ''-''
      then (case cs of
              [] \<Rightarrow> False
            | d # ds \<Rightarrow> (ident_start d \<or> d = CHR ''-'') \<and> list_all ident_char ds)
      else ident_start c \<and> list_all ident_char cs)"

fun split_at_dots :: "string \<Rightarrow> string list" where
  "split_at_dots [] = [[]]"
| "split_at_dots (c # cs) =
     (if c = CHR ''.'' then [] # split_at_dots cs
      else (case split_at_dots cs of
              w # ws \<Rightarrow> (c # w) # ws
            | [] \<Rightarrow> [[c]]))"

definition querySelector_ids :: "string list \<Rightarrow> string \<Rightarrow> dom_exception + string option" where
  "querySelector_ids ids sel =
     (case sel of
        [] \<Rightarrow> Inl SyntaxError
      | c # rest \<Rightarrow>
          if c \<noteq> CHR ''#'' then Inl SyntaxError
          else (case split_at_dots rest of
                  [] \<Rightarrow> Inl SyntaxError
                | name # classes \<Rightarrow>
                    if css_ident name \<and> list_all css_ident classes
                    then (if classes = [] then Inr (find (\<lambda>i. i = name) ids) else Inr None)
                    else Inl SyntaxError))"


section \<open>Parallax\<close>

text \<open>
  The inline \<^verbatim>\<open>style.transform\<close> of a \<^verbatim>\<open>.gradient-orb\<close> element: as the page left it,
  or the text \<^verbatim>\<open>translateY(\<close>\<open>y\<close>\<^verbatim>\<open>px) rotate(\<close>\<open>r\<close>\<^verbatim>\<open>deg)\<close> written by the scroll
  listener, kept as the two numbers \<open>y\<close> and \<open>r\<close>.
\<close>

datatype css_transform = Initial_transform | TranslateY_rotate rat rat

text \<open>
  The scroll listener, given \<^verbatim>\<open>window.pageYOffset\<close> and the transforms of the orbs in
  document order. The literal \<^verbatim>\<open>-0.5\<close> is a double; \<^verbatim>\<open>0.1\<close> stands for the double
  nearest to it. Every product is a double multiplication.
\<close>

definition scroll_listener :: "rat \<Rightarrow> css_transform list \<Rightarrow> css_transform list" where
  "scroll_listener scrolled orbs =
     (let rate = js_mul scrolled (- (1 / 2))
      in map (\<lambda>(index, orb).
                let speed = js_mul (of_nat (index + 1)) (to_double (1 / 10))
                in TranslateY_rotate (js_mul rate speed) (js_mul scrolled (to_double (1 / 10))))
           (enumerate 0 orbs))"


section \<open>Properties of the quiz preview\<close>

subsection \<open>What each handler does to each field\<close>

lemma mouseenter_fields [simp]:
  "options (mouseenter q) = options q"
  "progressFill (mouseenter q) = progressFill q"
  "progressText (mouseenter q) = progressText q"
  "quizQuestion (mouseenter q) = quizQuestion q"
  "currentQuestion (mouseenter q) = currentQuestion q"
  "timers (mouseenter q) = timers q"
  by (simp_all add: mouseenter_def)

lemma mouseleave_fields [simp]:
  "options (mouseleave q) = options q"
  "progressFill (mouseleave q) = progressFill q"
  "progressText (mouseleave q) = progressText q"
  "quizQuestion (mouseleave q) = quizQuestion q"
  "currentQuestion (mouseleave q) = currentQuestion q"
  "timers (mouseleave q) = timers q"
  by (simp_all add: mouseleave_def)

lemma option_click_fields [simp]:
  "quizCard (option_click i q) = quizCard q"
  "length (options (option_click i q)) = length (options q)"
  "progressFill (option_click i q) = progressFill q"
  "progressText (option_click i q) = progressText q"
  "quizQuestion (option_click i q) = quizQuestion q"
  "currentQuestion (option_click i q) = currentQuestion q"
  "timers (option_click i q) = Suc (timers q)"
  by (simp_all add: option_click_def Let_def)

lemma updateProgress_fields [simp]:
  "quizCard (updateProgress q) = quizCard q"
  "options (updateProgress q) = options q"
  "quizQuestion (updateProgress q) = quizQuestion q"
  "currentQuestion (updateProgress q) = currentQuestion q"
  "timers (updateProgress q) = timers q"
  by (simp_all add: updateProgress_def Let_def)

lemma updateProgress_progressFill:
  "progressFill (updateProgress q) =
     (if progressFill q = None then None
      else Some (Percent (js_mul (js_div (of_nat (currentQuestion q)) (of_nat totalQuestions)) 100)))"
  by (simp add: updateProgress_def Let_def)

lemma updateProgress_progressText:
  "progressText (updateProgress q) =
     (if progressText q = None then None else Some (progress_text (currentQuestion q)))"
  by (simp add: updateProgress_def Let_def)

lemma simulateNextQuestion_fields [simp]:
  "quizCard (simulateNextQuestion q) = quizCard q"
  "length (options (simulateNextQuestion q)) = length (options q)"
  "progressFill (simulateNextQuestion q) = progressFill q"
  "progressText (simulateNextQuestion q) = progressText q"
  "currentQuestion (simulateNextQuestion q) = currentQuestion q"
  "timers (simulateNextQuestion q) = timers q"
  by (simp_all add: simulateNextQuestion_def Let_def split: option.split)

lemma simulateNextQuestion_options:
  "options (simulateNextQuestion q) =
     map (\<lambda>opt. opt\<lparr>selected := False, transform := ''translateX(0)''\<rparr>) (options q)"
  by (simp add: simulateNextQuestion_def Let_def split: option.split)

lemma showQuizComplete_fields [simp]:
  "quizCard (showQuizComplete q) = quizCard q"
  "options (showQuizComplete q) = options q"
  "currentQuestion (showQuizComplete q) = currentQuestion q"
  "timers (showQuizComplete q) = timers q"
  by (simp_all add: showQuizComplete_def Let_def)

lemma showQuizComplete_progressFill:
  "progressFill (showQuizComplete q) =
     (if progressFill q = None then None else Some (Percent 100))"
  by (simp add: showQuizComplete_def Let_def)

lemma showQuizComplete_progressText:
  "progressText (showQuizComplete q) =
     (if progressText q = None then None else Some ''Quiz Complete!'')"
  by (simp add: showQuizComplete_def Let_def)

lemma showQuizComplete_quizQuestion:
  "quizQuestion (showQuizComplete q) =
     (if quizQuestion q = None then None
      else Some \<lparr>assignedHTML = Some complete_html, questionText = Some complete_message\<rparr>)"
  by (simp add: showQuizComplete_def Let_def)

lemma timeout_fields [simp]:
  "quizCard (timeout q) = quizCard q"
  "length (options (timeout q)) = length (options q)"
  "currentQuestion (timeout q) = js_incr (currentQuestion q)"
  "timers (timeout q) = timers q"
  by (simp_all add: timeout_def Let_def)

lemma handle_length_options [simp]:
  "length (options (handle q ev)) = length (options q)"
  by (cases ev) simp_all

lemma run_length_options [simp]:
  "length (options (run q evs)) = length (options q)"
  unfolding run_def by (induction evs arbitrary: q) simp_all

lemma run_Nil [simp]: "run q [] = q"
  by (simp add: run_def)

lemma run_Cons [simp]: "run q (ev # evs) = run (handle q ev) evs"
  by (simp add: run_def)

lemma run_append: "run q (evs @ evs') = run (run q evs) evs'"
  by (simp add: run_def)

lemma selections_Nil [simp]: "selections [] = []"
  by (simp add: selections_def)

lemma selections_Cons [simp]: "selections (i # picks) = Click i # Elapse # selections picks"
  by (simp add: selections_def)

lemma selections_append: "selections (xs @ ys) = selections xs @ selections ys"
  by (simp add: selections_def)

subsection \<open>The counter\<close>

lemma js_incr_ge: "n \<le> js_incr n"
  by (simp add: js_incr_def)

lemma js_incr_le_Suc: "js_incr n \<le> Suc n"
  by (simp add: js_incr_def)

lemma js_incr_small: "n < 2 ^ 53 \<Longrightarrow> js_incr n = Suc n"
  by (simp add: js_incr_def)

lemma handle_currentQuestion_mono: "currentQuestion q \<le> currentQuestion (handle q ev)"
  by (cases ev) (simp_all add: js_incr_ge)

lemma handle_currentQuestion_step:
  "currentQuestion (handle q ev) \<le> currentQuestion q + (if ev = Elapse then 1 else 0)"
  by (cases ev) (simp_all add: js_incr_le_Suc)

lemma run_currentQuestion_mono: "currentQuestion q \<le> currentQuestion (run q evs)"
proof (induction evs arbitrary: q)
  case Nil
  show ?case by simp
next
  case (Cons ev evs)
  have "currentQuestion q \<le> currentQuestion (handle q ev)"
    by (rule handle_currentQuestion_mono)
  also have "\<dots> \<le> currentQuestion (run (handle q ev) evs)"
    by (rule Cons.IH)
  finally show ?case by simp
qed

lemma run_currentQuestion_bound:
  "currentQuestion (run q evs) \<le> currentQuestion q + count_list evs Elapse"
proof (induction evs arbitrary: q)
  case Nil
  show ?case by simp
next
  case (Cons ev evs)
  have "currentQuestion (run (handle q ev) evs)
          \<le> currentQuestion (handle q ev) + count_list evs Elapse"
    by (rule Cons.IH)
  also have "\<dots> \<le> currentQuestion q + (if ev = Elapse then 1 else 0) + count_list evs Elapse"
    using handle_currentQuestion_step [of q ev] by simp
  finally show ?case by (cases "ev = Elapse") (simp_all del: handle.simps)
qed


lemma round_timers:
  "i < length (options q) \<Longrightarrow> timers (run q [Click i, Elapse]) = timers q"
  by simp

lemma selections_currentQuestion:
  "\<forall>i\<in>set picks. i < length (options q) \<Longrightarrow>
   currentQuestion q + length picks \<le> 2 ^ 53 \<Longrightarrow>
   currentQuestion (run q (selections picks)) = currentQuestion q + length picks"
proof (induction picks arbitrary: q)
  case Nil
  show ?case by simp
next
  case (Cons i picks)
  let ?q = "handle (handle q (Click i)) Elapse"
  have cq: "currentQuestion ?q = Suc (currentQuestion q)"
    using Cons.prems by (simp add: js_incr_small)
  have "currentQuestion (run ?q (selections picks)) = currentQuestion ?q + length picks"
    using Cons.prems cq by (intro Cons.IH) simp_all
  with cq show ?case by simp
qed

lemma selections_timers:
  "\<forall>i\<in>set picks. i < length (options q) \<Longrightarrow>
   timers (run q (selections picks)) = timers q"
proof (induction picks arbitrary: q)
  case Nil
  show ?case by simp
next
  case (Cons i picks)
  let ?q = "handle (handle q (Click i)) Elapse"
  have "timers (run ?q (selections picks)) = timers ?q"
    using Cons.prems by (intro Cons.IH) simp
  with Cons.prems show ?case by simp
qed

lemma initQuizPreview_SomeD:
  "initQuizPreview p = Some q \<Longrightarrow>
     quizCard q = quizCard p \<and> options q = options p \<and> progressFill q = progressFill p \<and>
     progressText q = progressText p \<and> quizQuestion q = quizQuestion p \<and>
     currentQuestion q = 1 \<and> timers q = 0"
  by (auto simp: initQuizPreview_def split: if_splits)

lemma initQuizPreview_demo: "initQuizPreview demo_page = Some demo"
  by (simp add: initQuizPreview_def demo_page_def demo_def)

lemma demo_fields:
  "currentQuestion demo = 1" "timers demo = 0" "length (options demo) = 3"
  "progressFill demo = Some Initial_width" "progressText demo = Some ''Question 1 of 10''"
  "quizQuestion demo = Some \<lparr>assignedHTML = None,
      questionText = Some ''What motivates you most in life?''\<rparr>"
  by (simp_all add: demo_def)

lemma demo_page_fields:
  "length (options demo_page) = 3" "progressText demo_page = Some ''Question 1 of 10''"
  "progressFill demo_page = Some Initial_width"
  by (simp_all add: demo_page_def)


subsection \<open>Completion\<close>

lemma display_showQuizComplete:
  "display (showQuizComplete q) =
     (if progressFill q = None then None else Some (Percent 100),
      if progressText q = None then None else Some ''Quiz Complete!'',
      if quizQuestion q = None then None
      else Some \<lparr>assignedHTML = Some complete_html, questionText = Some complete_message\<rparr>)"
  by (simp add: display_def showQuizComplete_progressFill showQuizComplete_progressText
      showQuizComplete_quizQuestion)

lemma display_showQuizComplete_cong:
  "display q = display q' \<Longrightarrow> display (showQuizComplete q) = display (showQuizComplete q')"
  by (simp add: display_def showQuizComplete_progressFill showQuizComplete_progressText
      showQuizComplete_quizQuestion)

lemma display_showQuizComplete_idem:
  "display (showQuizComplete (showQuizComplete q)) = display (showQuizComplete q)"
  by (simp add: display_def showQuizComplete_progressFill showQuizComplete_progressText
      showQuizComplete_quizQuestion)

lemma display_option_click [simp]: "display (option_click i q) = display q"
  by (simp add: display_def)

lemma display_timeout_completing:
  "totalQuestions < js_incr (currentQuestion q) \<Longrightarrow>
     display (timeout q) = display (showQuizComplete q)"
  by (simp add: timeout_def Let_def display_showQuizComplete)

lemma display_other_events:
  "ev \<noteq> Elapse \<Longrightarrow> display (handle q ev) = display q"
  by (cases ev) (simp_all add: display_def)

lemma display_timers_update [simp]:
  "display (q\<lparr>timers := n\<rparr>) = display q"
  by (simp add: display_def)

lemma display_showQuizComplete_timers [simp]:
  "display (showQuizComplete (q\<lparr>timers := n\<rparr>)) = display (showQuizComplete q)"
  by (simp add: display_showQuizComplete)

lemma completed_handle:
  assumes past: "totalQuestions < currentQuestion q"
    and shown: "display (showQuizComplete q) = display q"
  shows "display (handle q ev) = display q"
    and "totalQuestions < currentQuestion (handle q ev)"
    and "display (showQuizComplete (handle q ev)) = display (handle q ev)"
proof -
  have later: "totalQuestions < js_incr (currentQuestion q)"
    using past js_incr_ge [of "currentQuestion q"] by simp
  show d: "display (handle q ev) = display q"
  proof (cases "ev = Elapse")
    case True
    then show ?thesis
      using later shown by (simp add: display_timeout_completing)
  next
    case False
    then show ?thesis by (rule display_other_events)
  qed
  show "totalQuestions < currentQuestion (handle q ev)"
    using past handle_currentQuestion_mono [of q ev] by simp
  have "display (showQuizComplete (handle q ev)) = display (showQuizComplete q)"
    using d by (rule display_showQuizComplete_cong)
  with d shown show "display (showQuizComplete (handle q ev)) = display (handle q ev)"
    by simp
qed

lemma completed_run:
  "totalQuestions < currentQuestion q \<Longrightarrow> display (showQuizComplete q) = display q \<Longrightarrow>
     display (run q evs) = display q \<and> totalQuestions < currentQuestion (run q evs)"
proof (induction evs arbitrary: q)
  case Nil
  then show ?case by simp
next
  case (Cons ev evs)
  have "display (run (handle q ev) evs) = display (handle q ev)
        \<and> totalQuestions < currentQuestion (run (handle q ev) evs)"
    using Cons.prems by (intro Cons.IH completed_handle)
  then show ?case
    using completed_handle(1) [OF Cons.prems] by simp
qed

lemma completing_round:
  assumes "i < length (options q)" and "currentQuestion q = totalQuestions"
  shows "currentQuestion (run q [Click i, Elapse]) = Suc totalQuestions"
    and "display (showQuizComplete (run q [Click i, Elapse])) = display (run q [Click i, Elapse])"
proof -
  show "currentQuestion (run q [Click i, Elapse]) = Suc totalQuestions"
    using assms by (simp add: js_incr_def totalQuestions_def)
  have eq: "display (run q [Click i, Elapse]) = display (showQuizComplete (option_click i q))"
    using assms by (simp add: display_timeout_completing js_incr_def totalQuestions_def)
  have "display (showQuizComplete (run q [Click i, Elapse]))
          = display (showQuizComplete (showQuizComplete (option_click i q)))"
    using eq by (rule display_showQuizComplete_cong)
  with eq show "display (showQuizComplete (run q [Click i, Elapse])) = display (run q [Click i, Elapse])"
    by (simp only: display_showQuizComplete_idem)
qed

lemma clicks_timers:
  "i < length (options q) \<Longrightarrow>
     timers (run q (replicate n (Click i))) = timers q + n \<and>
     currentQuestion (run q (replicate n (Click i))) = currentQuestion q"
  by (induction n arbitrary: q) simp_all

lemma elapses_currentQuestion:
  "n \<le> timers q \<Longrightarrow> currentQuestion q + n \<le> 2 ^ 53 \<Longrightarrow>
     currentQuestion (run q (replicate n Elapse)) = currentQuestion q + n"
proof (induction n arbitrary: q)
  case 0
  show ?case by simp
next
  case (Suc n)
  let ?q = "handle q Elapse"
  have step: "currentQuestion ?q = Suc (currentQuestion q) \<and> timers ?q = timers q - 1"
    using Suc.prems by (simp add: js_incr_small)
  have "currentQuestion (run ?q (replicate n Elapse)) = currentQuestion ?q + n"
    using Suc.prems step by (intro Suc.IH) simp_all
  with step show ?case by simp
qed

lemma handle_currentQuestion_other:
  "ev \<noteq> Elapse \<Longrightarrow> currentQuestion (handle q ev) = currentQuestion q"
  by (cases ev) simp_all

lemma handle_currentQuestion_elapse:
  "0 < timers q \<Longrightarrow> currentQuestion q < 2 ^ 53 \<Longrightarrow>
     currentQuestion (handle q Elapse) = currentQuestion q + 1"
  by (simp add: js_incr_def)

lemma handle_currentQuestion_cap:
  "currentQuestion q \<le> 2 ^ 53 \<Longrightarrow> currentQuestion (handle q ev) \<le> 2 ^ 53"
  by (cases ev) (simp_all add: js_incr_def)

lemma run_currentQuestion_cap:
  "currentQuestion q \<le> 2 ^ 53 \<Longrightarrow> currentQuestion (run q evs) \<le> 2 ^ 53"
proof (induction evs arbitrary: q)
  case Nil
  then show ?case by simp
next
  case (Cons ev evs)
  have "currentQuestion (handle q ev) \<le> 2 ^ 53"
    using Cons.prems by (rule handle_currentQuestion_cap)
  then have "currentQuestion (run (handle q ev) evs) \<le> 2 ^ 53"
    by (rule Cons.IH)
  then show ?case by (simp del: handle.simps)
qed

lemma clicks_then_delays:
  assumes "i < length (options q)" and "currentQuestion q + n \<le> 2 ^ 53"
  shows "currentQuestion (run q (replicate n (Click i) @ replicate n Elapse))
    = currentQuestion q + n"
proof -
  let ?q = "run q (replicate n (Click i))"
  have "n \<le> timers ?q" and "currentQuestion ?q = currentQuestion q"
    using clicks_timers [OF assms(1), of n] by simp_all
  then show ?thesis
    using elapses_currentQuestion [of n ?q] assms(2) by (simp add: run_append)
qed

text \<open>
  C2, as amended: the counter starts at 1 and never decreases. An event other than an
  elapsed delay leaves it as it is, and the elapsed delay of a scheduled callback adds
  exactly one to it while it is below \<open>2 ^ 53\<close>, where double arithmetic stops
  counting; so it is at most 1 plus the number of delays elapsed, and stays within
  \<open>totalQuestions + 1\<close> as long as no more than \<open>totalQuestions\<close> delays have elapsed. It is
  not bounded by \<open>totalQuestions + 1\<close>: \<open>n\<close> clicks followed by their \<open>n\<close> delays take it to
  \<open>1 + n\<close>. It never exceeds \<open>2 ^ 53\<close>.
\<close>

theorem currentQuestion_monotone:
  "initQuizPreview p = Some q0 \<Longrightarrow>
     currentQuestion q0 = 1 \<and>
     currentQuestion (run q0 evs) \<le> currentQuestion (run q0 (evs @ evs')) \<and>
     currentQuestion (run q0 evs) \<le> 1 + count_list evs Elapse \<and>
     (count_list evs Elapse \<le> totalQuestions \<longrightarrow>
        currentQuestion (run q0 evs) \<le> totalQuestions + 1) \<and>
     (\<forall>ev. ev \<noteq> Elapse \<longrightarrow>
        currentQuestion (run q0 (evs @ [ev])) = currentQuestion (run q0 evs)) \<and>
     (0 < timers (run q0 evs) \<longrightarrow> currentQuestion (run q0 evs) < 2 ^ 53 \<longrightarrow>
        currentQuestion (run q0 (evs @ [Elapse])) = currentQuestion (run q0 evs) + 1) \<and>
     (i < length (options p) \<longrightarrow> 1 + n \<le> 2 ^ 53 \<longrightarrow>
        currentQuestion (run q0 (replicate n (Click i) @ replicate n Elapse)) = 1 + n) \<and>
     currentQuestion (run q0 evs) \<le> 2 ^ 53"
proof -
  assume init: "initQuizPreview p = Some q0"
  note q0 = initQuizPreview_SomeD [OF init]
  have one: "currentQuestion q0 = 1"
    using q0 by simp
  have mono: "currentQuestion (run q0 evs) \<le> currentQuestion (run q0 (evs @ evs'))"
    by (simp add: run_append run_currentQuestion_mono)
  have bound: "currentQuestion (run q0 evs) \<le> 1 + count_list evs Elapse"
    using run_currentQuestion_bound [of q0 evs] one by simp
  have other: "currentQuestion (run q0 (evs @ [ev])) = currentQuestion (run q0 evs)"
    if "ev \<noteq> Elapse" for ev
    using that by (simp add: run_append handle_currentQuestion_other del: handle.simps)
  have elapse: "currentQuestion (run q0 (evs @ [Elapse])) = currentQuestion (run q0 evs) + 1"
    if "0 < timers (run q0 evs)" and "currentQuestion (run q0 evs) < 2 ^ 53"
    using that by (simp add: run_append handle_currentQuestion_elapse del: handle.simps)
  have reach: "currentQuestion (run q0 (replicate n (Click i) @ replicate n Elapse)) = 1 + n"
    if "i < length (options p)" and "1 + n \<le> 2 ^ 53"
    using that clicks_then_delays [of i q0 n] q0 by simp
  have cap: "currentQuestion (run q0 evs) \<le> 2 ^ 53"
    using one by (intro run_currentQuestion_cap) simp
  from one mono bound other elapse reach cap show ?thesis
    by simp
qed

theorem currentQuestion_monotone_witness:
  "initQuizPreview demo_page = Some demo \<and>
   currentQuestion demo = 1 \<and>
   currentQuestion (run demo [Click 0]) \<le> currentQuestion (run demo ([Click 0] @ [Elapse, Click 1])) \<and>
   currentQuestion (run demo [Click 0]) \<le> 1 + count_list [Click 0] Elapse \<and>
   count_list [Click 0] Elapse \<le> totalQuestions \<and>
   currentQuestion (run demo [Click 0]) \<le> totalQuestions + 1 \<and>
   Click 1 \<noteq> Elapse \<and>
   currentQuestion (run demo ([Click 0] @ [Click 1])) = currentQuestion (run demo [Click 0]) \<and>
   0 < timers (run demo [Click 0]) \<and> currentQuestion (run demo [Click 0]) < 2 ^ 53 \<and>
   currentQuestion (run demo ([Click 0] @ [Elapse])) = currentQuestion (run demo [Click 0]) + 1 \<and>
   0 < length (options demo_page) \<and> (1::nat) + 11 \<le> 2 ^ 53 \<and>
   currentQuestion (run demo (replicate 11 (Click 0) @ replicate 11 Elapse)) = 1 + 11 \<and>
   currentQuestion (run demo [Click 0]) \<le> 2 ^ 53"
proof -
  note inst = currentQuestion_monotone
    [OF initQuizPreview_demo, of "[Click 0]" "[Elapse, Click 1]" 0 11]
  have click: "Click 1 \<noteq> Elapse"
    by simp
  have pending: "0 < timers (run demo [Click 0])"
    and below: "currentQuestion (run demo [Click 0]) < 2 ^ 53"
    by (simp_all add: demo_fields)
  have opt: "0 < length (options demo_page)" and small: "(1::nat) + 11 \<le> 2 ^ 53"
    and few: "count_list [Click 0] Elapse \<le> totalQuestions"
    by (simp_all add: demo_page_fields totalQuestions_def)
  from inst click pending below opt small few initQuizPreview_demo show ?thesis
    by blast
qed

text \<open>
  Eleven clicks within the first second, then their eleven delays: the counter ends at 12,
  above \<open>totalQuestions + 1\<close>.
\<close>

theorem currentQuestion_exceeds_eleven:
  "initQuizPreview demo_page = Some demo \<and>
   \<not> currentQuestion (run demo (replicate 11 (Click 0) @ replicate 11 Elapse))
       \<le> totalQuestions + 1"
proof -
  let ?q = "run demo (replicate 11 (Click 0))"
  have opts: "0 < length (options demo)"
    by (simp add: demo_def)
  have "timers ?q = 11" and "currentQuestion ?q = 1"
    using clicks_timers [OF opts, of 11] by (simp_all add: demo_def)
  then have "currentQuestion (run ?q (replicate 11 Elapse)) = 12"
    using elapses_currentQuestion [of 11 ?q] by simp
  then show ?thesis
    by (simp add: run_append initQuizPreview_demo totalQuestions_def)
qed

lemma phase_of_selections:
  assumes init: "initQuizPreview p = Some q0"
    and valid: "\<forall>i\<in>set picks. i < length (options p)"
    and len: "length picks \<le> totalQuestions"
  shows "currentQuestion (run q0 (selections picks)) = Suc (length picks)"
proof -
  have "options q0 = options p" and "currentQuestion q0 = 1"
    using init by (simp_all add: initQuizPreview_SomeD)
  moreover have "(1::nat) + length picks \<le> 2 ^ 53"
    using len by (simp add: totalQuestions_def)
  ultimately show ?thesis
    using valid selections_currentQuestion [of picks q0] by simp
qed

text \<open>
  C1, as amended: from \<open>AwaitingSelection 1\<close>, \<open>k < 10\<close> selections, each followed by its
  delay, lead to \<open>AwaitingSelection (k + 1)\<close>, and exactly 10 lead to \<open>Completed\<close>. From
  there no event leads anywhere else or changes what is displayed; option clicks are
  still handled (the clicked option is marked and a callback scheduled), but the state
  stays \<open>Completed\<close>.
\<close>

theorem completed_after_ten_selections:
  "initQuizPreview p = Some q0 \<Longrightarrow> length picks = 10 \<Longrightarrow>
   \<forall>i\<in>set picks. i < length (options p) \<Longrightarrow>
     phase_of q0 = AwaitingSelection 1 \<and>
     (\<forall>k<10. phase_of (run q0 (selections (take k picks))) = AwaitingSelection (k + 1)) \<and>
     phase_of (run q0 (selections picks)) = Completed \<and>
     phase_of (run (run q0 (selections picks)) evs) = Completed \<and>
     display (run (run q0 (selections picks)) evs) = display (run q0 (selections picks)) \<and>
     (\<forall>i. i < length (options p) \<longrightarrow>
        selected (options (run (run q0 (selections picks)) (evs @ [Click i])) ! i) \<and>
        timers (run (run q0 (selections picks)) (evs @ [Click i]))
          = timers (run (run q0 (selections picks)) evs) + 1)"
proof -
  assume init: "initQuizPreview p = Some q0"
    and len: "length picks = 10"
    and valid: "\<forall>i\<in>set picks. i < length (options p)"
  have opts: "options q0 = options p"
    using init by (simp add: initQuizPreview_SomeD)
  have start: "phase_of q0 = AwaitingSelection 1"
    using init by (simp add: phase_of_def initQuizPreview_SomeD totalQuestions_def)
  have before: "phase_of (run q0 (selections (take k picks))) = AwaitingSelection (k + 1)"
    if "k < 10" for k
  proof -
    have "\<forall>i\<in>set (take k picks). i < length (options p)"
      using valid by (meson in_set_takeD)
    moreover have "length (take k picks) = k"
      using len that by simp
    ultimately have "currentQuestion (run q0 (selections (take k picks))) = Suc k"
      using phase_of_selections [OF init, of "take k picks"] that
      by (simp add: totalQuestions_def)
    then show ?thesis
      using that by (simp add: phase_of_def totalQuestions_def)
  qed
  let ?nine = "run q0 (selections (butlast picks))"
  let ?ten = "run q0 (selections picks)"
  have picks: "picks = butlast picks @ [last picks]"
    using len by (cases picks rule: rev_cases) simp_all
  have "\<forall>i\<in>set (butlast picks). i < length (options p)"
    using valid by (meson in_set_butlastD)
  then have nine: "currentQuestion ?nine = totalQuestions"
    using phase_of_selections [OF init, of "butlast picks"] len
    by (simp add: totalQuestions_def)
  have last: "last picks < length (options ?nine)"
    using valid len opts by (cases picks rule: rev_cases) simp_all
  have ten: "?ten = run ?nine [Click (last picks), Elapse]"
    by (subst picks) (simp add: selections_append run_append)
  have cq: "currentQuestion ?ten = Suc totalQuestions"
    and shown: "display (showQuizComplete ?ten) = display ?ten"
    unfolding ten using completing_round [OF last nine] by simp_all
  have after: "display (run ?ten evs) = display ?ten \<and> totalQuestions < currentQuestion (run ?ten evs)"
    using cq shown by (intro completed_run) simp_all
  have handled: "selected (options (run ?ten (evs @ [Click i])) ! i)
      \<and> timers (run ?ten (evs @ [Click i])) = timers (run ?ten evs) + 1"
    if "i < length (options p)" for i
  proof -
    have i: "i < length (options (run ?ten evs))"
      using that opts by simp
    then have "selected (options (option_click i (run ?ten evs)) ! i)"
      by (simp add: option_click_def Let_def)
    with i show ?thesis
      by (simp add: run_append)
  qed
  have "phase_of ?ten = Completed"
    using cq by (simp add: phase_of_def)
  moreover have "phase_of (run ?ten evs) = Completed"
    using after by (simp add: phase_of_def)
  ultimately show ?thesis
    using start before after handled by blast
qed

lemma demo_picks_valid: "\<forall>i\<in>set [0, 1, 2, 0, 1, 2, 0, 1, 2, 1]. i < length (options demo_page)"
  by (simp add: demo_page_def)

theorem completed_after_ten_selections_witness:
  "initQuizPreview demo_page = Some demo \<and>
   length [0, 1, 2, 0, 1, 2, 0, 1, 2, 1 :: nat] = 10 \<and>
   0 < length (options demo_page) \<and> 1 < length (options demo_page) \<and>
   2 < length (options demo_page) \<and>
   phase_of demo = AwaitingSelection 1 \<and>
   phase_of (run demo (selections (take 9 [0, 1, 2, 0, 1, 2, 0, 1, 2, 1])))
     = AwaitingSelection (9 + 1) \<and>
   phase_of (run demo (selections [0, 1, 2, 0, 1, 2, 0, 1, 2, 1])) = Completed \<and>
   phase_of (run (run demo (selections [0, 1, 2, 0, 1, 2, 0, 1, 2, 1])) [Click 0, Elapse])
     = Completed \<and>
   display (run (run demo (selections [0, 1, 2, 0, 1, 2, 0, 1, 2, 1])) [Click 0, Elapse])
     = display (run demo (selections [0, 1, 2, 0, 1, 2, 0, 1, 2, 1])) \<and>
   selected (options (run (run demo (selections [0, 1, 2, 0, 1, 2, 0, 1, 2, 1]))
     ([Click 0, Elapse] @ [Click 2])) ! 2) \<and>
   timers (run (run demo (selections [0, 1, 2, 0, 1, 2, 0, 1, 2, 1])) ([Click 0, Elapse] @ [Click 2]))
     = timers (run (run demo (selections [0, 1, 2, 0, 1, 2, 0, 1, 2, 1])) [Click 0, Elapse]) + 1"
proof -
  have len: "length [0, 1, 2, 0, 1, 2, 0, 1, 2, 1 :: nat] = 10"
    by simp
  have opts: "0 < length (options demo_page)" "1 < length (options demo_page)"
    "2 < length (options demo_page)"
    by (simp_all add: demo_page_def)
  note inst = completed_after_ten_selections
    [OF initQuizPreview_demo len demo_picks_valid, of "[Click 0, Elapse]"]
  have nine: "(9::nat) < 10"
    by simp
  from inst nine have "phase_of (run demo (selections (take 9 [0, 1, 2, 0, 1, 2, 0, 1, 2, 1])))
      = AwaitingSelection (9 + 1)"
    by blast
  with inst len opts initQuizPreview_demo show ?thesis
    by blast
qed

text \<open>
  Nine selections from question 1 end at question 10, not at completion.
\<close>

theorem nine_selections_not_completed:
  "initQuizPreview demo_page = Some demo \<and>
   phase_of (run demo (selections [0, 1, 2, 0, 1, 2, 0, 1, 2])) = AwaitingSelection 10 \<and>
   phase_of (run demo (selections [0, 1, 2, 0, 1, 2, 0, 1, 2])) \<noteq> Completed"
proof -
  have "\<forall>i\<in>set [0, 1, 2, 0, 1, 2, 0, 1, 2]. i < length (options demo_page)"
    by (simp add: demo_page_def)
  then have "currentQuestion (run demo (selections [0, 1, 2, 0, 1, 2, 0, 1, 2])) = 10"
    using phase_of_selections [OF initQuizPreview_demo, of "[0, 1, 2, 0, 1, 2, 0, 1, 2]"]
    by (simp add: totalQuestions_def del: selections_Cons)
  then show ?thesis
    by (simp add: phase_of_def totalQuestions_def initQuizPreview_demo del: selections_Cons)
qed

subsection \<open>The progress indicator\<close>

text \<open>
  \<^verbatim>\<open>(currentQuestion / totalQuestions) * 100\<close> in double arithmetic is exact for
  every value of the counter at which \<^verbatim>\<open>updateProgress\<close> runs; at 11 it no longer
  would be.
\<close>

lemma progress_exact_cases:
  "js_mul (js_div 1 10) 100 = 10"
  "js_mul (js_div 2 10) 100 = 20"
  "js_mul (js_div 3 10) 100 = 30"
  "js_mul (js_div 4 10) 100 = 40"
  "js_mul (js_div 5 10) 100 = 50"
  "js_mul (js_div 6 10) 100 = 60"
  "js_mul (js_div 7 10) 100 = 70"
  "js_mul (js_div 8 10) 100 = 80"
  "js_mul (js_div 9 10) 100 = 90"
  "js_mul (js_div 10 10) 100 = 100"
  by code_simp+

lemma progress_inexact_at_eleven: "js_mul (js_div 11 10) 100 = 110 + 1 / 2 ^ 46"
  by code_simp

lemma show_nat_digit: "n < 10 \<Longrightarrow> show_nat n = [''0123456789'' ! n]"
  by (simp add: show_nat.simps)

lemma show_nat_ten: "show_nat 10 = ''10''"
  by (simp add: show_nat.simps)


lemma progress_exact:
  assumes "1 \<le> n" and "n \<le> totalQuestions"
  shows "js_mul (js_div (of_nat n) (of_nat totalQuestions)) 100 = of_nat n / 10 * 100"
proof -
  have "n \<in> {1, 2, 3, 4, 5, 6, 7, 8, 9, 10}"
    using assms unfolding totalQuestions_def by simp arith
  then show ?thesis
    by (elim insertE emptyE) (simp_all add: totalQuestions_def progress_exact_cases)
qed

lemma simulateNextQuestion_quizQuestion:
  "quizQuestion (simulateNextQuestion q) =
     (case quizQuestion q of
        None \<Rightarrow> None
      | Some e \<Rightarrow>
          if questionText e \<noteq> None \<and> currentQuestion q \<le> length questions
          then Some (e\<lparr>questionText :=
                 Some (if currentQuestion q = 0 then []
                       else questions ! (currentQuestion q - 1))\<rparr>)
          else Some e)"
  by (simp add: simulateNextQuestion_def Let_def split: option.split)

lemma timeout_advancing:
  assumes "js_incr (currentQuestion q) \<le> totalQuestions"
  shows "timeout q = simulateNextQuestion (updateProgress (q\<lparr>currentQuestion := js_incr (currentQuestion q)\<rparr>))"
  using assms by (simp add: timeout_def Let_def)

lemma timeout_completing:
  assumes "totalQuestions < js_incr (currentQuestion q)"
  shows "timeout q = showQuizComplete (q\<lparr>currentQuestion := js_incr (currentQuestion q)\<rparr>)"
  using assms by (simp add: timeout_def Let_def)

lemma round_eq:
  "i < length (options q) \<Longrightarrow>
     run q [Click i, Elapse] = timeout ((option_click i q)\<lparr>timers := timers q\<rparr>)"
  by simp

lemma advancing_round:
  assumes i: "i < length (options q)" and n: "currentQuestion q < totalQuestions"
  shows "progressFill (run q [Click i, Elapse]) =
           (if progressFill q = None then None
            else Some (Percent (of_nat (Suc (currentQuestion q)) / 10 * 100)))"
    and "progressText (run q [Click i, Elapse]) =
           (if progressText q = None then None
            else Some (progress_text (Suc (currentQuestion q))))"
    and "quizQuestion (run q [Click i, Elapse]) =
           (case quizQuestion q of
              None \<Rightarrow> None
            | Some e \<Rightarrow>
                if questionText e \<noteq> None \<and> Suc (currentQuestion q) \<le> length questions
                then Some (e\<lparr>questionText := Some (questions ! currentQuestion q)\<rparr>)
                else Some e)"
    and "options (run q [Click i, Elapse]) =
           map (\<lambda>opt. opt\<lparr>selected := False, transform := ''translateX(0)''\<rparr>) (options q)"
proof -
  let ?q = "(option_click i q)\<lparr>timers := timers q\<rparr>"
  have incr: "js_incr (currentQuestion ?q) = Suc (currentQuestion q)"
    using n by (simp add: js_incr_def totalQuestions_def)
  have adv: "js_incr (currentQuestion ?q) \<le> totalQuestions"
    using n incr by simp
  have eq: "run q [Click i, Elapse]
      = simulateNextQuestion (updateProgress (?q\<lparr>currentQuestion := Suc (currentQuestion q)\<rparr>))"
    using timeout_advancing [OF adv] i incr by (simp only: round_eq)
  have exact: "js_mul (js_div (of_nat (Suc (currentQuestion q))) (of_nat totalQuestions)) 100
      = of_nat (Suc (currentQuestion q)) / 10 * 100"
    using n by (intro progress_exact) simp_all
  show "progressFill (run q [Click i, Elapse]) =
           (if progressFill q = None then None
            else Some (Percent (of_nat (Suc (currentQuestion q)) / 10 * 100)))"
    unfolding eq using exact by (simp add: updateProgress_progressFill)
  show "progressText (run q [Click i, Elapse]) =
           (if progressText q = None then None
            else Some (progress_text (Suc (currentQuestion q))))"
    unfolding eq by (simp add: updateProgress_progressText)
  show "quizQuestion (run q [Click i, Elapse]) =
           (case quizQuestion q of
              None \<Rightarrow> None
            | Some e \<Rightarrow>
                if questionText e \<noteq> None \<and> Suc (currentQuestion q) \<le> length questions
                then Some (e\<lparr>questionText := Some (questions ! currentQuestion q)\<rparr>)
                else Some e)"
    unfolding eq by (simp add: simulateNextQuestion_quizQuestion split: option.split)
  show "options (run q [Click i, Elapse]) =
           map (\<lambda>opt. opt\<lparr>selected := False, transform := ''translateX(0)''\<rparr>) (options q)"
    unfolding eq using i
    by (simp add: simulateNextQuestion_options option_click_def Let_def
        list_eq_iff_nth_eq nth_list_update)
qed

lemma completing_round_display:
  assumes i: "i < length (options q)" and n: "currentQuestion q = totalQuestions"
  shows "progressFill (run q [Click i, Elapse]) =
           (if progressFill q = None then None else Some (Percent 100))"
    and "progressText (run q [Click i, Elapse]) =
           (if progressText q = None then None else Some ''Quiz Complete!'')"
    and "quizQuestion (run q [Click i, Elapse]) =
           (if quizQuestion q = None then None
            else Some \<lparr>assignedHTML = Some complete_html,
                       questionText = Some complete_message\<rparr>)"
proof -
  let ?q = "(option_click i q)\<lparr>timers := timers q\<rparr>"
  have "totalQuestions < js_incr (currentQuestion ?q)"
    using n by (simp add: js_incr_def totalQuestions_def)
  then have eq: "run q [Click i, Elapse]
      = showQuizComplete (?q\<lparr>currentQuestion := js_incr (currentQuestion ?q)\<rparr>)"
    using i by (simp only: round_eq timeout_completing)
  show "progressFill (run q [Click i, Elapse]) =
           (if progressFill q = None then None else Some (Percent 100))"
    unfolding eq by (simp add: showQuizComplete_progressFill)
  show "progressText (run q [Click i, Elapse]) =
           (if progressText q = None then None else Some ''Quiz Complete!'')"
    unfolding eq by (simp add: showQuizComplete_progressText)
  show "quizQuestion (run q [Click i, Elapse]) =
           (if quizQuestion q = None then None
            else Some \<lparr>assignedHTML = Some complete_html,
                       questionText = Some complete_message\<rparr>)"
    unfolding eq by (simp add: showQuizComplete_quizQuestion)
qed

lemma timeout_progressText:
  "progressText (timeout q) =
     (if progressText q = None then None
      else Some (if js_incr (currentQuestion q) \<le> totalQuestions
                 then progress_text (js_incr (currentQuestion q)) else ''Quiz Complete!''))"
  by (simp add: timeout_def Let_def updateProgress_progressText showQuizComplete_progressText)

lemma timeout_progressFill:
  "progressFill (timeout q) =
     (if progressFill q = None then None
      else Some (Percent (if js_incr (currentQuestion q) \<le> totalQuestions
                 then js_mul (js_div (of_nat (js_incr (currentQuestion q)))
                                (of_nat totalQuestions)) 100
                 else 100)))"
  by (simp add: timeout_def Let_def updateProgress_progressFill showQuizComplete_progressFill)

lemma handle_progressText_present:
  "progressText (handle q ev) = None \<longleftrightarrow> progressText q = None"
  by (cases ev) (simp_all add: timeout_progressText)

lemma handle_progressFill_present:
  "progressFill (handle q ev) = None \<longleftrightarrow> progressFill q = None"
  by (cases ev) (simp_all add: timeout_progressFill)

lemma run_progressText_present:
  "progressText (run q evs) = None \<longleftrightarrow> progressText q = None"
  by (induction evs arbitrary: q) (simp_all add: handle_progressText_present del: handle.simps)

lemma run_progressFill_present:
  "progressFill (run q evs) = None \<longleftrightarrow> progressFill q = None"
  by (induction evs arbitrary: q) (simp_all add: handle_progressFill_present del: handle.simps)

lemma progress_text_eq:
  "progress_text n = ''Question '' @ show_nat n @ '' of 10''"
  by (simp add: progress_text_def totalQuestions_def show_nat_ten)

lemma progress_text_two: "progress_text 2 = ''Question 2 of 10''"
  by (simp add: progress_text_eq show_nat_digit)

text \<open>
  C3, as amended: the transition taken from \<open>AwaitingSelection n\<close> sets the progress
  indicator to the values of the question entered, \<open>((n + 1) / 10) * 100\<close> percent and
  "Question n+1 of 10", when \<open>n + 1 \<le> 10\<close>; the transition that reaches \<open>Completed\<close>
  replaces the question display with the completion message and sets the progress to
  100 percent and "Quiz Complete!". Each element is written only if the page has it.
\<close>

theorem progress_shows_entered_question:
  "phase_of q = AwaitingSelection n \<Longrightarrow> i < length (options q) \<Longrightarrow>
     (n + 1 \<le> totalQuestions \<longrightarrow>
        phase_of (run q [Click i, Elapse]) = AwaitingSelection (n + 1) \<and>
        progressFill (run q [Click i, Elapse]) =
          (if progressFill q = None then None
           else Some (Percent (of_nat (n + 1) / 10 * 100))) \<and>
        progressText (run q [Click i, Elapse]) =
          (if progressText q = None then None
           else Some (''Question '' @ show_nat (n + 1) @ '' of 10''))) \<and>
     (n = totalQuestions \<longrightarrow>
        phase_of (run q [Click i, Elapse]) = Completed \<and>
        quizQuestion (run q [Click i, Elapse]) =
          (if quizQuestion q = None then None
           else Some \<lparr>assignedHTML = Some complete_html,
                      questionText = Some complete_message\<rparr>) \<and>
        progressFill (run q [Click i, Elapse]) =
          (if progressFill q = None then None else Some (Percent 100)) \<and>
        progressText (run q [Click i, Elapse]) =
          (if progressText q = None then None else Some ''Quiz Complete!''))"
proof -
  assume ph: "phase_of q = AwaitingSelection n" and i: "i < length (options q)"
  have n: "currentQuestion q = n"
    using ph by (simp add: phase_of_def split: if_splits)
  have advancing: ?thesis if "n + 1 \<le> totalQuestions"
  proof -
    have less: "currentQuestion q < totalQuestions"
      using that n by simp
    have "currentQuestion (run q [Click i, Elapse]) = n + 1"
      using i n less by (simp add: js_incr_def totalQuestions_def)
    then have "phase_of (run q [Click i, Elapse]) = AwaitingSelection (n + 1)"
      using that by (simp add: phase_of_def del: run_Cons)
    then show ?thesis
      using that advancing_round(1,2) [OF i less] n
      by (simp add: progress_text_eq del: run_Cons)
  qed
  have completing: ?thesis if "n = totalQuestions"
  proof -
    have full: "currentQuestion q = totalQuestions"
      using that n by simp
    have "phase_of (run q [Click i, Elapse]) = Completed"
      using completing_round(1) [OF i full] by (simp add: phase_of_def del: run_Cons)
    then show ?thesis
      using that completing_round_display [OF i full] by (simp del: run_Cons)
  qed
  show ?thesis
  proof (cases "n = totalQuestions")
    case True
    then show ?thesis by (rule completing)
  next
    case False
    show ?thesis
    proof (cases "n + 1 \<le> totalQuestions")
      case True
      then show ?thesis by (rule advancing)
    next
      case False
      with \<open>n \<noteq> totalQuestions\<close> show ?thesis by simp
    qed
  qed
qed

theorem progress_shows_entered_question_witness:
  "phase_of demo = AwaitingSelection 1 \<and> 0 < length (options demo) \<and>
   1 + 1 \<le> totalQuestions \<and>
   phase_of (run demo [Click 0, Elapse]) = AwaitingSelection (1 + 1) \<and>
   progressFill (run demo [Click 0, Elapse]) = Some (Percent (of_nat (1 + 1) / 10 * 100)) \<and>
   progressText (run demo [Click 0, Elapse]) = Some (''Question '' @ show_nat (1 + 1) @ '' of 10'') \<and>
   phase_of (demo\<lparr>currentQuestion := 10\<rparr>) = AwaitingSelection 10 \<and>
   10 = totalQuestions \<and>
   phase_of (run (demo\<lparr>currentQuestion := 10\<rparr>) [Click 0, Elapse]) = Completed \<and>
   quizQuestion (run (demo\<lparr>currentQuestion := 10\<rparr>) [Click 0, Elapse]) =
     Some \<lparr>assignedHTML = Some complete_html, questionText = Some complete_message\<rparr> \<and>
   progressFill (run (demo\<lparr>currentQuestion := 10\<rparr>) [Click 0, Elapse]) = Some (Percent 100) \<and>
   progressText (run (demo\<lparr>currentQuestion := 10\<rparr>) [Click 0, Elapse]) = Some ''Quiz Complete!''"
proof -
  have p1: "phase_of demo = AwaitingSelection 1"
    by (simp add: phase_of_def demo_fields totalQuestions_def)
  have i1: "0 < length (options demo)"
    by (simp add: demo_fields)
  have p10: "phase_of (demo\<lparr>currentQuestion := 10\<rparr>) = AwaitingSelection 10"
    by (simp add: phase_of_def totalQuestions_def)
  have i10: "0 < length (options (demo\<lparr>currentQuestion := 10\<rparr>))"
    by (simp add: demo_fields)
  have t: "1 + 1 \<le> totalQuestions" "10 = totalQuestions"
    by (simp_all add: totalQuestions_def)
  show ?thesis
    using progress_shows_entered_question [OF p1 i1] progress_shows_entered_question [OF p10 i10]
      p1 i1 p10 t
    by (simp add: demo_fields del: run_Cons)
qed

text \<open>
  The transition out of \<open>AwaitingSelection 1\<close> shows the values of question 2, not
  \<open>(1 / 10) * 100\<close> percent and "Question 1 of 10".
\<close>

theorem first_transition_shows_question_two:
  "phase_of demo = AwaitingSelection 1 \<and>
   progressFill (run demo [Click 0, Elapse]) = Some (Percent 20) \<and>
   progressFill (run demo [Click 0, Elapse]) \<noteq> Some (Percent (1 / 10 * 100)) \<and>
   progressText (run demo [Click 0, Elapse]) = Some ''Question 2 of 10'' \<and>
   progressText (run demo [Click 0, Elapse]) \<noteq> Some ''Question 1 of 10''"
proof -
  have i: "0 < length (options demo)" and n: "currentQuestion demo < totalQuestions"
    by (simp_all add: demo_fields totalQuestions_def)
  have "phase_of demo = AwaitingSelection 1"
    by (simp add: phase_of_def demo_fields totalQuestions_def)
  moreover have "progressFill (run demo [Click 0, Elapse]) = Some (Percent 20)"
    using advancing_round(1) [OF i n] by (simp add: demo_fields del: run_Cons)
  moreover have "progressText (run demo [Click 0, Elapse]) = Some ''Question 2 of 10''"
    using advancing_round(2) [OF i n]
    by (simp add: demo_fields progress_text_two del: run_Cons flip: numeral_2_eq_2)
  ultimately show ?thesis
    by (simp del: run_Cons)
qed


lemma selections_snoc:
  "run q (selections (picks @ [i])) = run (run q (selections picks)) [Click i, Elapse]"
  by (simp add: selections_append run_append)

lemma last_selection:
  assumes init: "initQuizPreview p = Some q0"
    and valid: "\<forall>i\<in>set (picks @ [i]). i < length (options p)"
    and len: "length picks < totalQuestions"
  shows "currentQuestion (run q0 (selections picks)) = Suc (length picks)"
    and "i < length (options (run q0 (selections picks)))"
proof -
  show "currentQuestion (run q0 (selections picks)) = Suc (length picks)"
    using valid len by (intro phase_of_selections [OF init]) simp_all
  show "i < length (options (run q0 (selections picks)))"
    using valid initQuizPreview_SomeD [OF init] by simp
qed

text \<open>
  C4: on a page whose progress text starts as "Question 1 of 10", after \<open>n < 10\<close>
  selections, each followed by its delay, the progress text reads "Question n+1 of 10",
  and after 10 selections it reads "Quiz Complete!". After the first selection the text
  is "Question 2 of 10" and the width of the progress fill, if the page has one, is 20
  percent.
\<close>

theorem progress_text_after_selections:
  "initQuizPreview p = Some q0 \<Longrightarrow> progressText p = Some ''Question 1 of 10'' \<Longrightarrow>
   \<forall>i\<in>set picks. i < length (options p) \<Longrightarrow>
     (length picks < 10 \<longrightarrow>
        progressText (run q0 (selections picks))
          = Some (''Question '' @ show_nat (length picks + 1) @ '' of 10'')) \<and>
     (length picks = 10 \<longrightarrow>
        progressText (run q0 (selections picks)) = Some ''Quiz Complete!'') \<and>
     (length picks = 1 \<longrightarrow>
        progressText (run q0 (selections picks)) = Some ''Question 2 of 10'' \<and>
        (progressFill p \<noteq> None \<longrightarrow>
           progressFill (run q0 (selections picks)) = Some (Percent 20)))"
proof -
  assume init: "initQuizPreview p = Some q0"
    and shown: "progressText p = Some ''Question 1 of 10''"
    and valid: "\<forall>i\<in>set picks. i < length (options p)"
  note q0 = initQuizPreview_SomeD [OF init]
  have advancing: "progressText (run q0 (selections picks))
      = Some (''Question '' @ show_nat (length picks + 1) @ '' of 10'')"
    if "length picks < 10"
  proof (cases picks rule: rev_cases)
    case Nil
    then show ?thesis
      using shown q0 by (simp add: show_nat_digit)
  next
    case (snoc picks' i)
    let ?prev = "run q0 (selections picks')"
    have short: "length picks' < totalQuestions"
      using that snoc by (simp add: totalQuestions_def)
    have cq: "currentQuestion ?prev = Suc (length picks')"
      and i: "i < length (options ?prev)"
      using last_selection [OF init _ short, of i] valid snoc by simp_all
    have less: "currentQuestion ?prev < totalQuestions"
      using cq that snoc by (simp add: totalQuestions_def)
    have "progressText ?prev \<noteq> None"
      using shown q0 by (simp add: run_progressText_present)
    then show ?thesis
      using advancing_round(2) [OF i less] cq snoc
      by (simp only: selections_snoc progress_text_eq) simp
  qed
  have completing: "progressText (run q0 (selections picks)) = Some ''Quiz Complete!''"
    if "length picks = 10"
  proof (cases picks rule: rev_cases)
    case Nil
    with that show ?thesis by simp
  next
    case (snoc picks' i)
    let ?prev = "run q0 (selections picks')"
    have short: "length picks' < totalQuestions"
      using that snoc by (simp add: totalQuestions_def)
    have cq: "currentQuestion ?prev = Suc (length picks')"
      and i: "i < length (options ?prev)"
      using last_selection [OF init _ short, of i] valid snoc by simp_all
    have full: "currentQuestion ?prev = totalQuestions"
      using cq that snoc by (simp add: totalQuestions_def)
    have "progressText ?prev \<noteq> None"
      using shown q0 by (simp add: run_progressText_present)
    then show ?thesis
      using completing_round_display(2) [OF i full] snoc
      by (simp only: selections_snoc) simp
  qed
  have first: "progressFill (run q0 (selections picks)) = Some (Percent 20)"
    if len1: "length picks = 1" and fill: "progressFill p \<noteq> None"
  proof -
    obtain i where picks: "picks = [i]"
      using len1 by (cases picks) auto
    have i: "i < length (options q0)" and less: "currentQuestion q0 < totalQuestions"
      using valid picks q0 by (simp_all add: totalQuestions_def)
    have "run q0 (selections picks) = run q0 [Click i, Elapse]"
      using picks by simp
    then show ?thesis
      using advancing_round(1) [OF i less] fill q0 by (simp del: run_Cons)
  qed
  have "progressText (run q0 (selections picks)) = Some ''Question 2 of 10''"
    if "length picks = 1"
    using advancing that by (simp add: show_nat_digit)
  with advancing completing first show ?thesis
    by blast
qed

theorem progress_text_after_selections_witness:
  "initQuizPreview demo_page = Some demo \<and>
   progressText demo_page = Some ''Question 1 of 10'' \<and>
   0 < length (options demo_page) \<and> 1 < length (options demo_page) \<and>
   2 < length (options demo_page) \<and>
   length [0, 1, 2 :: nat] < 10 \<and>
   progressText (run demo (selections [0, 1, 2]))
     = Some (''Question '' @ show_nat (length [0, 1, 2 :: nat] + 1) @ '' of 10'') \<and>
   length [0, 1, 2, 0, 1, 2, 0, 1, 2, 1 :: nat] = 10 \<and>
   progressText (run demo (selections [0, 1, 2, 0, 1, 2, 0, 1, 2, 1])) = Some ''Quiz Complete!'' \<and>
   length [0 :: nat] = 1 \<and> progressFill demo_page \<noteq> None \<and>
   progressText (run demo (selections [0])) = Some ''Question 2 of 10'' \<and>
   progressFill (run demo (selections [0])) = Some (Percent 20)"
proof -
  have v3: "\<forall>i\<in>set [0, 1, 2]. i < length (options demo_page)"
    and v1: "\<forall>i\<in>set [0]. i < length (options demo_page)"
    by (simp_all add: demo_page_fields)
  have l3: "length [0, 1, 2 :: nat] < 10" and l10: "length [0, 1, 2, 0, 1, 2, 0, 1, 2, 1 :: nat] = 10"
    and l1: "length [0 :: nat] = 1"
    by simp_all
  have opts: "0 < length (options demo_page)" "1 < length (options demo_page)"
    "2 < length (options demo_page)"
    by (simp_all add: demo_page_fields)
  have fill: "progressFill demo_page \<noteq> None"
    by (simp add: demo_page_fields)
  note t = progress_text_after_selections [OF initQuizPreview_demo demo_page_fields(2)]
  from t [OF v3] l3 have a: "progressText (run demo (selections [0, 1, 2]))
     = Some (''Question '' @ show_nat (length [0, 1, 2 :: nat] + 1) @ '' of 10'')"
    by blast
  from t [OF demo_picks_valid] l10
  have b: "progressText (run demo (selections [0, 1, 2, 0, 1, 2, 0, 1, 2, 1])) = Some ''Quiz Complete!''"
    by blast
  from t [OF v1] l1 fill
  have c: "progressText (run demo (selections [0])) = Some ''Question 2 of 10''"
    "progressFill (run demo (selections [0])) = Some (Percent 20)"
    by blast+
  from a b c l3 l10 l1 opts fill initQuizPreview_demo demo_page_fields(2) show ?thesis
    by blast
qed

subsection \<open>The selected mark\<close>

lemma num_selected_cleared [simp]:
  "num_selected (map (\<lambda>opt. opt\<lparr>selected := False\<rparr>) opts) = 0"
  by (simp add: num_selected_def filter_map o_def)

lemma num_selected_reset [simp]:
  "num_selected (map (\<lambda>opt. opt\<lparr>selected := False, transform := t\<rparr>) opts) = 0"
  by (simp add: num_selected_def filter_map o_def)

lemma num_selected_mark:
  assumes "i < length opts" and "num_selected opts = 0" and "selected x"
  shows "num_selected (opts[i := x]) = 1"
proof -
  have none: "\<forall>y\<in>set opts. \<not> selected y"
    using assms(2) by (simp add: num_selected_def filter_empty_conv)
  have "\<forall>y\<in>set (take i opts). \<not> selected y" and "\<forall>y\<in>set (drop (Suc i) opts). \<not> selected y"
    using none by (auto dest: in_set_takeD in_set_dropD)
  then show ?thesis
    using assms(1,3) by (simp add: num_selected_def upd_conv_take_nth_drop)
qed

lemma option_click_num_selected:
  assumes "i < length (options q)"
  shows "num_selected (options (option_click i q)) = 1"
proof -
  let ?cleared = "map (\<lambda>opt. opt\<lparr>selected := False\<rparr>) (options q)"
  have "num_selected (?cleared[i := (?cleared ! i)\<lparr>selected := True\<rparr>]) = 1"
    using assms by (intro num_selected_mark) simp_all
  then show ?thesis
    by (simp add: option_click_def Let_def)
qed

lemma option_click_selected:
  "i < length (options q) \<Longrightarrow> j < length (options q) \<Longrightarrow>
     selected (options (option_click i q) ! j) \<longleftrightarrow> j = i"
  by (auto simp: option_click_def Let_def nth_list_update)

lemma timeout_options:
  "options (timeout q) =
     (if js_incr (currentQuestion q) \<le> totalQuestions
      then map (\<lambda>opt. opt\<lparr>selected := False, transform := ''translateX(0)''\<rparr>) (options q)
      else options q)"
  by (simp add: timeout_def Let_def simulateNextQuestion_options)

lemma handle_num_selected:
  "num_selected (options q) \<le> 1 \<Longrightarrow> num_selected (options (handle q ev)) \<le> 1"
  by (cases ev) (simp_all add: option_click_num_selected timeout_options)

lemma run_num_selected:
  "num_selected (options q) \<le> 1 \<Longrightarrow> num_selected (options (run q evs)) \<le> 1"
proof (induction evs arbitrary: q)
  case Nil
  then show ?case by simp
next
  case (Cons ev evs)
  have "num_selected (options (handle q ev)) \<le> 1"
    using Cons.prems by (rule handle_num_selected)
  then have "num_selected (options (run (handle q ev) evs)) \<le> 1"
    by (rule Cons.IH)
  then show ?case by (simp del: handle.simps)
qed

text \<open>
  C5: on a page that loads with at most one option marked \<^verbatim>\<open>selected\<close>, at most one
  option is marked after every sequence of events; and right after a click on an
  option, that option is marked and no other is.
\<close>

theorem at_most_one_selected:
  "initQuizPreview p = Some q0 \<Longrightarrow> num_selected (options p) \<le> 1 \<Longrightarrow>
     num_selected (options (run q0 evs)) \<le> 1 \<and>
     (\<forall>i j. i < length (options p) \<longrightarrow> j < length (options p) \<longrightarrow>
        num_selected (options (run q0 (evs @ [Click i]))) = 1 \<and>
        (selected (options (run q0 (evs @ [Click i])) ! j) \<longleftrightarrow> j = i))"
proof -
  assume init: "initQuizPreview p = Some q0" and one: "num_selected (options p) \<le> 1"
  note q0 = initQuizPreview_SomeD [OF init]
  have "num_selected (options (run q0 evs)) \<le> 1"
    using one q0 by (intro run_num_selected) simp
  moreover have "num_selected (options (run q0 (evs @ [Click i]))) = 1"
    if "i < length (options p)" for i
    using that q0 by (simp add: run_append option_click_num_selected)
  moreover have "selected (options (run q0 (evs @ [Click i])) ! j) \<longleftrightarrow> j = i"
    if "i < length (options p)" and "j < length (options p)" for i j
    using that q0 by (simp add: run_append option_click_selected)
  ultimately show ?thesis
    by blast
qed

theorem at_most_one_selected_witness:
  "initQuizPreview demo_page = Some demo \<and> num_selected (options demo_page) \<le> 1 \<and>
   num_selected (options (run demo [Click 0, Click 2, Elapse])) \<le> 1 \<and>
   1 < length (options demo_page) \<and> 2 < length (options demo_page) \<and>
   num_selected (options (run demo ([Click 0, Click 2, Elapse] @ [Click 1]))) = 1 \<and>
   selected (options (run demo ([Click 0, Click 2, Elapse] @ [Click 1])) ! 1) \<and>
   \<not> selected (options (run demo ([Click 0, Click 2, Elapse] @ [Click 1])) ! 2)"
proof -
  have none: "num_selected (options demo_page) \<le> 1"
    by (simp add: demo_page_def num_selected_def)
  have opts: "1 < length (options demo_page)" "2 < length (options demo_page)"
    by (simp_all add: demo_page_fields)
  note t = at_most_one_selected [OF initQuizPreview_demo none, of "[Click 0, Click 2, Elapse]"]
  from t opts have "num_selected (options (run demo ([Click 0, Click 2, Elapse] @ [Click 1]))) = 1"
    and "selected (options (run demo ([Click 0, Click 2, Elapse] @ [Click 1])) ! 1) \<longleftrightarrow> 1 = (1::nat)"
    and "selected (options (run demo ([Click 0, Click 2, Elapse] @ [Click 1])) ! 2) \<longleftrightarrow> 2 = (1::nat)"
    by blast+
  with t none opts initQuizPreview_demo show ?thesis
    by (simp del: run_Cons)
qed

subsection \<open>The question text\<close>

lemma questions_length: "length questions = 5"
  by (simp add: questions_def)

lemma questions_second: "questions ! 1 = ''How do you handle stress?''"
  by (simp add: questions_def)

lemma handle_quizQuestion_other:
  "ev \<noteq> Elapse \<Longrightarrow> quizQuestion (handle q ev) = quizQuestion q"
  by (cases ev) simp_all

text \<open>
  C8: the list of question strings has exactly 5 entries. When the page has the question
  text element, the transition that enters question \<open>n + 1\<close> sets the displayed text to
  the string for that question if \<open>n + 1 \<le> 5\<close>, and leaves the text as it was if
  \<open>n + 1\<close> is beyond the list (6 to 10); no other event touches it. The first selection
  from question 1 makes the text "How do you handle stress?".
\<close>

theorem question_text_updates:
  assumes "phase_of q = AwaitingSelection n" and "i < length (options q)"
    and "quizQuestion q = Some e" and "questionText e \<noteq> None"
  shows "length questions = 5 \<and>
    (n + 1 \<le> 5 \<longrightarrow>
       quizQuestion (run q [Click i, Elapse]) = Some (e\<lparr>questionText := Some (questions ! n)\<rparr>)) \<and>
    (5 < n + 1 \<and> n + 1 \<le> totalQuestions \<longrightarrow>
       quizQuestion (run q [Click i, Elapse]) = Some e) \<and>
    (n = 1 \<longrightarrow>
       quizQuestion (run q [Click i, Elapse])
         = Some (e\<lparr>questionText := Some ''How do you handle stress?''\<rparr>)) \<and>
    (\<forall>ev. ev \<noteq> Elapse \<longrightarrow> quizQuestion (handle q ev) = Some e)"
proof -
  have n: "currentQuestion q = n"
    using assms(1) by (simp add: phase_of_def split: if_splits)
  have entering: "quizQuestion (run q [Click i, Elapse]) =
      (if Suc n \<le> 5 then Some (e\<lparr>questionText := Some (questions ! n)\<rparr>) else Some e)"
    if "n + 1 \<le> totalQuestions"
  proof -
    have "currentQuestion q < totalQuestions"
      using that n by simp
    from advancing_round(3) [OF assms(2) this] show ?thesis
      using assms(3,4) n by (simp add: questions_length del: run_Cons)
  qed
  have listed: "quizQuestion (run q [Click i, Elapse])
      = Some (e\<lparr>questionText := Some (questions ! n)\<rparr>)" if "n + 1 \<le> 5"
    using that entering by (simp add: totalQuestions_def del: run_Cons)
  have beyond: "quizQuestion (run q [Click i, Elapse]) = Some e"
    if "5 < n + 1" and "n + 1 \<le> totalQuestions"
    using that entering by (simp del: run_Cons)
  have first: "quizQuestion (run q [Click i, Elapse])
      = Some (e\<lparr>questionText := Some ''How do you handle stress?''\<rparr>)" if "n = 1"
    using that listed questions_second by (simp del: run_Cons)
  have others: "quizQuestion (handle q ev) = Some e" if "ev \<noteq> Elapse" for ev
    using that assms(3) by (simp add: handle_quizQuestion_other del: handle.simps)
  from questions_length listed beyond first others show ?thesis
    by blast
qed

theorem question_text_updates_witness:
  "initQuizPreview demo_page = Some demo \<and>
   phase_of demo = AwaitingSelection 1 \<and> 0 < length (options demo) \<and>
   quizQuestion demo = Some \<lparr>assignedHTML = None,
      questionText = Some ''What motivates you most in life?''\<rparr> \<and>
   length questions = 5 \<and>
   quizQuestion (run demo [Click 0, Elapse])
     = Some \<lparr>assignedHTML = None, questionText = Some ''How do you handle stress?''\<rparr> \<and>
   phase_of (demo\<lparr>currentQuestion := 7\<rparr>) = AwaitingSelection 7 \<and>
   quizQuestion (run (demo\<lparr>currentQuestion := 7\<rparr>) [Click 0, Elapse])
     = Some \<lparr>assignedHTML = None, questionText = Some ''What motivates you most in life?''\<rparr> \<and>
   quizQuestion (handle demo (Click 0))
     = Some \<lparr>assignedHTML = None, questionText = Some ''What motivates you most in life?''\<rparr>"
proof -
  let ?e = "\<lparr>assignedHTML = None, questionText = Some ''What motivates you most in life?''\<rparr>"
  have p1: "phase_of demo = AwaitingSelection 1"
    by (simp add: phase_of_def demo_fields totalQuestions_def)
  have p7: "phase_of (demo\<lparr>currentQuestion := 7\<rparr>) = AwaitingSelection 7"
    by (simp add: phase_of_def totalQuestions_def)
  have i1: "0 < length (options demo)" and i7: "0 < length (options (demo\<lparr>currentQuestion := 7\<rparr>))"
    by (simp_all add: demo_fields)
  have e1: "quizQuestion demo = Some ?e" and e7: "quizQuestion (demo\<lparr>currentQuestion := 7\<rparr>) = Some ?e"
    by (simp_all add: demo_fields)
  have t: "questionText ?e \<noteq> None"
    by simp
  have click: "Click 0 \<noteq> Elapse"
    by simp
  from question_text_updates [OF p1 i1 e1 t] click
  have a: "length questions = 5"
    and b: "quizQuestion (run demo [Click 0, Elapse])
      = Some (?e\<lparr>questionText := Some ''How do you handle stress?''\<rparr>)"
    and c: "quizQuestion (handle demo (Click 0)) = Some ?e"
    by blast+
  have "(5::nat) < 7 + 1 \<and> 7 + 1 \<le> totalQuestions"
    by (simp add: totalQuestions_def)
  with question_text_updates [OF p7 i7 e7 t]
  have d: "quizQuestion (run (demo\<lparr>currentQuestion := 7\<rparr>) [Click 0, Elapse]) = Some ?e"
    by blast
  from a b c d p1 p7 i1 e1 initQuizPreview_demo show ?thesis
    by (simp del: run_Cons handle.simps)
qed

subsection \<open>Absent elements\<close>




lemma mouse_quizCard [simp]:
  "quizCard (mouseenter q) = Some ''rotateY(0deg) rotateX(0deg) scale(1.05)''"
  "quizCard (mouseleave q) = Some ''rotateY(-5deg) rotateX(5deg) scale(1)''"
  by (simp_all add: mouseenter_def mouseleave_def)














section \<open>Properties of the scroll animations\<close>

lemma classList_add_member: "c \<in> set (classList_add c cl)"
  by (simp add: classList_add_def)

lemma classList_add_keeps: "d \<in> set cl \<Longrightarrow> d \<in> set (classList_add c cl)"
  by (simp add: classList_add_def)

lemma classList_add_idem: "classList_add c (classList_add c cl) = classList_add c cl"
  by (simp add: classList_add_def)

lemma reveal_length [simp]: "length (reveal els e) = length els"
  by (simp add: reveal_def)

lemma reveal_keeps:
  "i < length els \<Longrightarrow> d \<in> set (els ! i) \<Longrightarrow> d \<in> set (reveal els e ! i)"
  by (simp add: reveal_def nth_list_update classList_add_keeps)

lemma reveal_idem: "reveal (reveal els e) e = reveal els e"
  by (simp add: reveal_def classList_add_idem)

lemma observer_callback_length [simp]: "length (observer_callback els entries) = length els"
  unfolding observer_callback_def by (induction entries arbitrary: els) simp_all

lemma observer_callback_keeps:
  "i < length els \<Longrightarrow> d \<in> set (els ! i) \<Longrightarrow> d \<in> set (observer_callback els entries ! i)"
  unfolding observer_callback_def
  by (induction entries arbitrary: els) (simp_all add: reveal_keeps)

lemma observe_length [simp]: "length (observe els batches) = length els"
  unfolding observe_def by (induction batches arbitrary: els) simp_all

lemma observe_keeps:
  "i < length els \<Longrightarrow> d \<in> set (els ! i) \<Longrightarrow> d \<in> set (observe els batches ! i)"
  unfolding observe_def
  by (induction batches arbitrary: els) (simp_all add: observer_callback_keeps)

lemma observe_append: "observe els (xs @ ys) = observe (observe els xs) ys"
  by (simp add: observe_def)

lemma reveal_intersecting:
  "i < length els \<Longrightarrow>
     ''animate-in'' \<in> set (reveal els \<lparr>target = i, isIntersecting = True\<rparr> ! i)"
  by (simp add: reveal_def classList_add_member)

text \<open>
  C7: for every observed element and every sequence of observer callbacks, an element
  that has the class \<^verbatim>\<open>animate-in\<close> still has it after any further callbacks, whatever
  they report (also that the element no longer intersects); an intersecting entry gives
  its target the class; and adding the class a second time changes nothing.
\<close>

theorem revealed_stays_revealed:
  "i < length els \<Longrightarrow>
     (''animate-in'' \<in> set (observe els before ! i) \<longrightarrow>
        ''animate-in'' \<in> set (observe els (before @ later) ! i)) \<and>
     ''animate-in'' \<in> set (observer_callback els [\<lparr>target = i, isIntersecting = True\<rparr>] ! i) \<and>
     classList_add ''animate-in'' (classList_add ''animate-in'' (els ! i))
       = classList_add ''animate-in'' (els ! i) \<and>
     observer_callback els
         [\<lparr>target = i, isIntersecting = True\<rparr>, \<lparr>target = i, isIntersecting = True\<rparr>]
       = observer_callback els [\<lparr>target = i, isIntersecting = True\<rparr>]"
proof -
  assume i: "i < length els"
  have "''animate-in'' \<in> set (observe els (before @ later) ! i)"
    if "''animate-in'' \<in> set (observe els before ! i)"
    using that i by (simp add: observe_append observe_keeps)
  moreover have "''animate-in'' \<in> set (observer_callback els [\<lparr>target = i, isIntersecting = True\<rparr>] ! i)"
    using i by (simp add: observer_callback_def reveal_intersecting)
  moreover have "observer_callback els
         [\<lparr>target = i, isIntersecting = True\<rparr>, \<lparr>target = i, isIntersecting = True\<rparr>]
       = observer_callback els [\<lparr>target = i, isIntersecting = True\<rparr>]"
    by (simp add: observer_callback_def reveal_idem)
  ultimately show ?thesis
    by (simp add: classList_add_idem)
qed

theorem revealed_stays_revealed_witness:
  "(0::nat) < length [[''step''], [''feature-card'']] \<and>
   ''animate-in'' \<in> set (observe [[''step''], [''feature-card'']]
       [[\<lparr>target = 0, isIntersecting = True\<rparr>]] ! 0) \<and>
   ''animate-in'' \<in> set (observe [[''step''], [''feature-card'']]
       ([[\<lparr>target = 0, isIntersecting = True\<rparr>]] @ [[\<lparr>target = 0, isIntersecting = False\<rparr>]]) ! 0)"
proof -
  have i: "(0::nat) < length [[''step''], [''feature-card'']]"
    by simp
  have shown: "''animate-in'' \<in> set (observe [[''step''], [''feature-card'']]
       [[\<lparr>target = 0, isIntersecting = True\<rparr>]] ! 0)"
    by (simp add: observe_def observer_callback_def reveal_def classList_add_def)
  from revealed_stays_revealed [OF i, of "[[\<lparr>target = 0, isIntersecting = True\<rparr>]]"
      "[[\<lparr>target = 0, isIntersecting = False\<rparr>]]"] shown i
  show ?thesis
    by blast
qed

section \<open>Properties of the smooth scrolling\<close>

lemma anchor_click_prevents_default: "defaultPrevented (anchor_click qs href)"
  by (simp add: anchor_click_def split: sum.split option.split)

lemma anchor_click_found:
  "qs href = Inr (Some el) \<Longrightarrow>
     scrolledIntoView (anchor_click qs href) = Some (el, \<lparr>behavior = ''smooth'', block = ''start''\<rparr>)
     \<and> thrown (anchor_click qs href) = None"
  by (simp add: anchor_click_def)

lemma anchor_click_not_found:
  "qs href = Inr None \<Longrightarrow>
     scrolledIntoView (anchor_click qs href) = None \<and> thrown (anchor_click qs href) = None"
  by (simp add: anchor_click_def)

text \<open>
  C6 fails on a link whose href is just \<^verbatim>\<open>#\<close>: the listener hands the href to
  \<^verbatim>\<open>querySelector\<close>, which throws for it, and the exception ends the listener after
  \<^verbatim>\<open>preventDefault\<close>.
\<close>

theorem anchor_click_bare_hash_throws:
  "qs ''#'' = Inl SyntaxError \<Longrightarrow>
     thrown (anchor_click qs ''#'') = Some SyntaxError \<and>
     defaultPrevented (anchor_click qs ''#'') \<and>
     scrolledIntoView (anchor_click qs ''#'') = None"
  by (simp add: anchor_click_def)

theorem anchor_click_bare_hash_throws_witness:
  "querySelector_ids [''features'', ''quiz''] ''#'' = Inl SyntaxError \<and>
   thrown (anchor_click (querySelector_ids [''features'', ''quiz'']) ''#'') = Some SyntaxError \<and>
   defaultPrevented (anchor_click (querySelector_ids [''features'', ''quiz'']) ''#'') \<and>
   scrolledIntoView (anchor_click (querySelector_ids [''features'', ''quiz'']) ''#'') = None"
proof -
  have "querySelector_ids [''features'', ''quiz''] ''#'' = Inl SyntaxError"
    by (simp add: querySelector_ids_def)
  with anchor_click_bare_hash_throws [of "querySelector_ids [''features'', ''quiz'']"]
  show ?thesis
    by blast
qed

section \<open>Properties of the parallax\<close>

subsection \<open>The rounding error of a double operation\<close>

lemma pow2_powi: "pow2 k = 2 powi k"
  by (simp add: pow2_def power_int_def inverse_eq_divide power_one_over)

lemma pow2_pos: "0 < pow2 k"
  by (simp add: pow2_powi)

lemma pow2_add: "pow2 (a + b) = pow2 a * pow2 b"
  by (simp add: pow2_powi power_int_add)

lemma pow2_nat: "0 \<le> k \<Longrightarrow> pow2 k = 2 ^ nat k"
  by (simp add: pow2_def)

lemma bitlen_pow2_bounds:
  assumes "0 < a"
  shows "pow2 (bitlen a - 1) \<le> of_int a" and "of_int a < pow2 (bitlen a)"
proof -
  have pos: "1 \<le> bitlen a"
    using assms by (simp add: bitlen_alt_def)
  have "2 ^ nat (bitlen a - 1) \<le> a" and "a < 2 ^ nat (bitlen a)"
    using bitlen_bounds [OF assms] by simp_all
  then have "(of_int (2 ^ nat (bitlen a - 1)) :: rat) \<le> of_int a"
    and "(of_int a :: rat) < of_int (2 ^ nat (bitlen a))"
    by (simp_all only: of_int_le_iff of_int_less_iff)
  then show "pow2 (bitlen a - 1) \<le> of_int a" and "of_int a < pow2 (bitlen a)"
    using pos by (simp_all add: pow2_nat)
qed

lemma binade_bounds:
  assumes "0 < x"
  shows "pow2 (binade x) \<le> x" and "x < pow2 (binade x + 1)"
proof -
  obtain a b where q: "quotient_of x = (a, b)"
    by (cases "quotient_of x")
  have b: "0 < b"
    using q by (rule quotient_of_denom_pos)
  have x: "x = of_int a / of_int b"
    using q by (rule quotient_of_div)
  have a: "0 < a"
    using assms b x by (simp add: zero_less_divide_iff)
  let ?k = "bitlen a - bitlen b"
  note ba = bitlen_pow2_bounds [OF a] and bb = bitlen_pow2_bounds [OF b]
  have upper: "x < pow2 (?k + 1)"
  proof -
    have "of_int a < pow2 (bitlen a)"
      by (rule ba(2))
    also have "pow2 (bitlen a) = pow2 (?k + 1) * pow2 (bitlen b - 1)"
      by (simp flip: pow2_add)
    also have "\<dots> \<le> pow2 (?k + 1) * of_int b"
      using bb(1) pow2_pos [of "?k + 1"] by (simp add: mult_left_mono)
    finally show ?thesis
      using b by (simp add: x pos_divide_less_eq)
  qed
  have lower: "pow2 (?k - 1) \<le> x"
  proof -
    have "pow2 (?k - 1) * of_int b \<le> pow2 (?k - 1) * pow2 (bitlen b)"
      using bb(2) pow2_pos [of "?k - 1"] by (simp add: mult_left_mono)
    also have "\<dots> = pow2 (bitlen a - 1)"
      by (simp flip: pow2_add)
    also have "\<dots> \<le> of_int a"
      by (rule ba(1))
    finally show ?thesis
      using b by (simp add: x pos_le_divide_eq)
  qed
  show "pow2 (binade x) \<le> x"
    using lower by (simp add: binade_def q Let_def)
  show "x < pow2 (binade x + 1)"
    using upper by (auto simp: binade_def q Let_def not_le)
qed

lemma round_half_even_error: "\<bar>of_int (round_half_even m) - m\<bar> \<le> 1 / 2"
proof -
  have "of_int \<lfloor>m\<rfloor> \<le> m" and "m < of_int \<lfloor>m\<rfloor> + 1"
    by linarith+
  then show ?thesis
    by (auto simp: round_half_even_def Let_def)
qed

lemma to_double_error: "\<bar>to_double x - x\<bar> \<le> \<bar>x\<bar> / 2 ^ 53"
proof (cases "x = 0")
  case True
  then show ?thesis by (simp add: to_double_def)
next
  case False
  let ?y = "\<bar>x\<bar>"
  let ?ulp = "pow2 (binade ?y - 52)"
  let ?r = "of_int (round_half_even (?y / ?ulp)) :: rat"
  have y: "0 < ?y"
    using False by simp
  have ulp: "0 < ?ulp"
    by (rule pow2_pos)
  have "pow2 52 = 2 ^ 52"
    by (simp add: pow2_def)
  then have "pow2 (binade ?y) = ?ulp * 2 ^ 52"
    using pow2_add [of "binade ?y - 52" 52] by simp
  then have small: "?ulp * 2 ^ 52 \<le> ?y"
    using binade_bounds(1) [OF y] by simp
  have "?r * ?ulp - ?y = (?r - ?y / ?ulp) * ?ulp"
    using ulp by (simp add: left_diff_distrib)
  then have "\<bar>?r * ?ulp - ?y\<bar> = \<bar>?r - ?y / ?ulp\<bar> * \<bar>?ulp\<bar>"
    by (simp only: abs_mult)
  also have "\<dots> = \<bar>?r - ?y / ?ulp\<bar> * ?ulp"
    using ulp by simp
  also have "\<dots> \<le> 1 / 2 * ?ulp"
    using round_half_even_error [of "?y / ?ulp"] ulp by (intro mult_right_mono) simp_all
  also have "\<dots> \<le> ?y / 2 ^ 53"
    using small by simp
  finally have err: "\<bar>?r * ?ulp - ?y\<bar> \<le> ?y / 2 ^ 53" .
  have "to_double x - x = sgn x * (?r * ?ulp - ?y)"
    using False by (simp add: to_double_def Let_def right_diff_distrib mult.assoc mult_sgn_abs)
  then have "\<bar>to_double x - x\<bar> = \<bar>?r * ?ulp - ?y\<bar>"
    using False by (simp add: abs_mult)
  with err show ?thesis by simp
qed


lemma product_error:
  fixes a b A B e f :: rat
  assumes a: "\<bar>a - A\<bar> \<le> e * \<bar>A\<bar>" and b: "\<bar>b - B\<bar> \<le> f * \<bar>B\<bar>"
    and e: "0 \<le> e" and f: "0 \<le> f"
  shows "\<bar>a * b - A * B\<bar> \<le> (e + f + e * f) * \<bar>A * B\<bar>"
proof -
  have tri: "\<bar>x + y + z\<bar> \<le> \<bar>x\<bar> + \<bar>y\<bar> + \<bar>z\<bar>" for x y z :: rat
    by linarith
  have "a * b - A * B = (a - A) * (b - B) + (a - A) * B + A * (b - B)"
    by (simp add: algebra_simps)
  then have "\<bar>a * b - A * B\<bar> \<le> \<bar>(a - A) * (b - B)\<bar> + \<bar>(a - A) * B\<bar> + \<bar>A * (b - B)\<bar>"
    using tri [of "(a - A) * (b - B)" "(a - A) * B" "A * (b - B)"] by simp
  then have "\<bar>a * b - A * B\<bar> \<le> \<bar>a - A\<bar> * \<bar>b - B\<bar> + \<bar>a - A\<bar> * \<bar>B\<bar> + \<bar>A\<bar> * \<bar>b - B\<bar>"
    by (simp only: abs_mult)
  also have "\<bar>a - A\<bar> * \<bar>b - B\<bar> \<le> (e * \<bar>A\<bar>) * (f * \<bar>B\<bar>)"
    using a b e by (intro mult_mono) simp_all
  also have "\<bar>a - A\<bar> * \<bar>B\<bar> \<le> (e * \<bar>A\<bar>) * \<bar>B\<bar>"
    using a by (intro mult_right_mono) simp_all
  also have "\<bar>A\<bar> * \<bar>b - B\<bar> \<le> \<bar>A\<bar> * (f * \<bar>B\<bar>)"
    using b by (intro mult_left_mono) simp_all
  finally show ?thesis
    by (simp add: abs_mult algebra_simps)
qed

lemma rounding_error:
  fixes z Z e :: rat
  assumes z: "\<bar>z - Z\<bar> \<le> e * \<bar>Z\<bar>" and e: "0 \<le> e"
  shows "\<bar>to_double z - Z\<bar> \<le> (e + 1 / 2 ^ 53 + e * (1 / 2 ^ 53)) * \<bar>Z\<bar>"
proof -
  have "\<bar>z\<bar> \<le> \<bar>Z\<bar> + \<bar>z - Z\<bar>"
    by simp
  also have "\<dots> \<le> \<bar>Z\<bar> + e * \<bar>Z\<bar>"
    using z by simp
  finally have size: "\<bar>z\<bar> \<le> (1 + e) * \<bar>Z\<bar>"
    by (simp add: algebra_simps)
  have "\<bar>to_double z - Z\<bar> \<le> \<bar>to_double z - z\<bar> + \<bar>z - Z\<bar>"
    by simp
  also have "\<dots> \<le> \<bar>z\<bar> / 2 ^ 53 + e * \<bar>Z\<bar>"
    using to_double_error [of z] z by simp
  also have "\<dots> \<le> (1 + e) * \<bar>Z\<bar> / 2 ^ 53 + e * \<bar>Z\<bar>"
    using size by (simp add: divide_right_mono)
  also have "\<dots> = (e + 1 / 2 ^ 53 + e * (1 / 2 ^ 53)) * \<bar>Z\<bar>"
    by (simp add: field_simps)
  finally show ?thesis .
qed

lemma tenth_error: "\<bar>to_double (1 / 10) - 1 / 10\<bar> \<le> 1 / 2 ^ 53 * \<bar>1 / 10 :: rat\<bar>"
  using to_double_error [of "1 / 10"] by simp

lemma rotation_error:
  "\<bar>js_mul s (to_double (1 / 10)) - s * (1 / 10)\<bar> \<le> \<bar>s * (1 / 10)\<bar> / 2 ^ 51"
proof -
  define u :: rat where "u = 1 / 2 ^ 53"
  have u: "0 \<le> u"
    by (simp add: u_def)
  have s: "\<bar>s - s\<bar> \<le> 0 * \<bar>s\<bar>"
    by simp
  have "\<bar>s * to_double (1 / 10) - s * (1 / 10)\<bar> \<le> (0 + u + 0 * u) * \<bar>s * (1 / 10)\<bar>"
    using tenth_error u unfolding u_def by (intro product_error [OF s]) simp_all
  then have "\<bar>js_mul s (to_double (1 / 10)) - s * (1 / 10)\<bar>
      \<le> (u + 1 / 2 ^ 53 + u * (1 / 2 ^ 53)) * \<bar>s * (1 / 10)\<bar>"
    unfolding js_mul_def using u by (intro rounding_error) simp_all
  also have "\<dots> \<le> 1 / 2 ^ 51 * \<bar>s * (1 / 10)\<bar>"
    unfolding u_def by (intro mult_right_mono) simp_all
  finally show ?thesis
    by simp
qed

lemma translation_error:
  "\<bar>js_mul (js_mul s (- (1 / 2))) (js_mul n (to_double (1 / 10))) - s * (- (1 / 2)) * (n * (1 / 10))\<bar>
     \<le> \<bar>s * (- (1 / 2)) * (n * (1 / 10))\<bar> / 2 ^ 50"
proof -
  define u :: rat where "u = 1 / 2 ^ 53"
  define v where "v = u + u + u * u"
  define w where "w = u + v + u * v"
  have u: "0 \<le> u" and v: "0 \<le> v" and w: "0 \<le> w"
    by (simp_all add: u_def v_def w_def)
  have n: "\<bar>n - n\<bar> \<le> 0 * \<bar>n\<bar>"
    by simp
  have rate: "\<bar>js_mul s (- (1 / 2)) - s * (- (1 / 2))\<bar> \<le> u * \<bar>s * (- (1 / 2))\<bar>"
    using to_double_error [of "s * (- (1 / 2))"] by (simp add: js_mul_def u_def)
  have "\<bar>n * to_double (1 / 10) - n * (1 / 10)\<bar> \<le> (0 + u + 0 * u) * \<bar>n * (1 / 10)\<bar>"
    using tenth_error u unfolding u_def by (intro product_error [OF n]) simp_all
  then have "\<bar>js_mul n (to_double (1 / 10)) - n * (1 / 10)\<bar>
      \<le> (u + 1 / 2 ^ 53 + u * (1 / 2 ^ 53)) * \<bar>n * (1 / 10)\<bar>"
    unfolding js_mul_def using u by (intro rounding_error) simp_all
  then have speed: "\<bar>js_mul n (to_double (1 / 10)) - n * (1 / 10)\<bar> \<le> v * \<bar>n * (1 / 10)\<bar>"
    by (simp add: v_def u_def)
  have "\<bar>js_mul s (- (1 / 2)) * js_mul n (to_double (1 / 10)) - s * (- (1 / 2)) * (n * (1 / 10))\<bar>
      \<le> w * \<bar>s * (- (1 / 2)) * (n * (1 / 10))\<bar>"
    unfolding w_def using rate speed u v by (rule product_error)
  then have "\<bar>js_mul (js_mul s (- (1 / 2))) (js_mul n (to_double (1 / 10)))
        - s * (- (1 / 2)) * (n * (1 / 10))\<bar>
      \<le> (w + 1 / 2 ^ 53 + w * (1 / 2 ^ 53)) * \<bar>s * (- (1 / 2)) * (n * (1 / 10))\<bar>"
    using w by (subst js_mul_def) (rule rounding_error)
  also have "w + 1 / 2 ^ 53 + w * (1 / 2 ^ 53) \<le> 1 / 2 ^ 50"
    by (simp add: w_def v_def u_def)
  finally show ?thesis
    by (simp add: mult_right_mono)
qed


subsection \<open>The transform of each orb\<close>

lemma scroll_listener_length [simp]: "length (scroll_listener s orbs) = length orbs"
  by (simp add: scroll_listener_def Let_def)

lemma scroll_listener_nth:
  "i < length orbs \<Longrightarrow>
     scroll_listener s orbs ! i =
       TranslateY_rotate
         (js_mul (js_mul s (- (1 / 2))) (js_mul (of_nat (i + 1)) (to_double (1 / 10))))
         (js_mul s (to_double (1 / 10)))"
  by (simp add: scroll_listener_def Let_def nth_enumerate_eq)

text \<open>
  C9, as amended: on every scroll event the element with index \<open>i\<close> gets the transform
  whose translation is \<^verbatim>\<open>(scrolled * -0.5) * ((i + 1) * 0.1)\<close> and whose rotation is
  \<^verbatim>\<open>scrolled * 0.1\<close>, computed in double arithmetic. These are the proportional values
  \<open>s * (-0.5) * ((i + 1) * 0.1)\<close> pixels and \<open>s * 0.1\<close> degrees up to rounding only: the
  translation is within a relative error of \<open>2 ^ -50\<close> of the first and the rotation
  within \<open>2 ^ -51\<close> of the second.
\<close>

theorem transform_proportional_up_to_rounding:
  "i < length orbs \<Longrightarrow>
     length (scroll_listener s orbs) = length orbs \<and>
     scroll_listener s orbs ! i =
       TranslateY_rotate
         (js_mul (js_mul s (- (1 / 2))) (js_mul (of_nat (i + 1)) (to_double (1 / 10))))
         (js_mul s (to_double (1 / 10))) \<and>
     \<bar>js_mul (js_mul s (- (1 / 2))) (js_mul (of_nat (i + 1)) (to_double (1 / 10)))
        - s * (- (1 / 2)) * (of_nat (i + 1) * (1 / 10))\<bar>
       \<le> \<bar>s * (- (1 / 2)) * (of_nat (i + 1) * (1 / 10))\<bar> / 2 ^ 50 \<and>
     \<bar>js_mul s (to_double (1 / 10)) - s * (1 / 10)\<bar> \<le> \<bar>s * (1 / 10)\<bar> / 2 ^ 51"
  using translation_error [of s "of_nat (i + 1)"] rotation_error [of s]
  by (simp only: scroll_listener_length scroll_listener_nth simp_thms)

theorem transform_proportional_up_to_rounding_witness:
  "(2::nat) < length [Initial_transform, Initial_transform, Initial_transform] \<and>
   length (scroll_listener 100 [Initial_transform, Initial_transform, Initial_transform]) = 3 \<and>
   scroll_listener 100 [Initial_transform, Initial_transform, Initial_transform] ! 2 =
     TranslateY_rotate
       (js_mul (js_mul 100 (- (1 / 2))) (js_mul (of_nat (2 + 1)) (to_double (1 / 10))))
       (js_mul 100 (to_double (1 / 10))) \<and>
   \<bar>js_mul (js_mul 100 (- (1 / 2))) (js_mul (of_nat (2 + 1)) (to_double (1 / 10)))
      - 100 * (- (1 / 2)) * (of_nat (2 + 1) * (1 / 10))\<bar>
     \<le> \<bar>100 * (- (1 / 2)) * (of_nat (2 + 1) * (1 / 10))\<bar> / 2 ^ 50 \<and>
   \<bar>js_mul 100 (to_double (1 / 10)) - 100 * (1 / 10)\<bar> \<le> \<bar>100 * (1 / 10)\<bar> / 2 ^ 51"
proof -
  have i: "(2::nat) < length [Initial_transform, Initial_transform, Initial_transform]"
    by simp
  have three: "length [Initial_transform, Initial_transform, Initial_transform] = 3"
    by simp
  from transform_proportional_up_to_rounding [OF i, of 100] i three show ?thesis
    by (simp only: simp_thms)
qed

text \<open>
  At scroll offset 100 the third orb is moved by \<open>-15 - 2 ^ -49\<close> pixels, which is not
  \<open>100 * (-0.5) * (3 * 0.1) = -15\<close>; at scroll offset 3 the first orb is rotated by the
  double nearest to \<open>0.3\<close>, which is not \<open>3 * 0.1 = 0.3\<close>.
\<close>

theorem third_orb_not_exactly_proportional:
  "scroll_listener 100 [Initial_transform, Initial_transform, Initial_transform] ! 2
     = TranslateY_rotate (- 15 - 1 / 2 ^ 49) 10 \<and>
   - 15 - 1 / 2 ^ 49 \<noteq> (100 :: rat) * (- (1 / 2)) * (of_nat (2 + 1) * (1 / 10)) \<and>
   scroll_listener 3 [Initial_transform] ! 0
     = TranslateY_rotate (- (1351079888211149 / 9007199254740992))
         (1351079888211149 / 4503599627370496) \<and>
   1351079888211149 / 4503599627370496 \<noteq> (3 :: rat) * (1 / 10)"
proof -
  have "scroll_listener 100 [Initial_transform, Initial_transform, Initial_transform] ! 2
     = TranslateY_rotate (- 15 - 1 / 2 ^ 49) 10"
    by code_simp
  moreover have "scroll_listener 3 [Initial_transform] ! 0
     = TranslateY_rotate (- (1351079888211149 / 9007199254740992))
         (1351079888211149 / 4503599627370496)"
    by code_simp
  ultimately show ?thesis
    by simp
qed

end
